theory Spec2Isabelle
  imports Complex_Main "HOL-Library.Word" "HOL-Library.Monad_Syntax" "HOL-Library.Product_Lexorder"
begin

unbundle bit_operations_syntax

section \<open>Connect four: the bit board (class Board of ConnectFourUtility.py)\<close>

text \<open>
  A state is the Python tuple \<open>(bit board of player 1, bit board of player 2, turn)\<close>.
  Python integers are unbounded, so the three components are \<open>int\<close>; \<open><<\<close> is
  \<open>push_bit\<close>, \<open>>>\<close> is \<open>drop_bit\<close>, and \<open>&\<close>, \<open>|\<close>, \<open>^\<close> are \<open>AND\<close>, \<open>OR\<close>, \<open>XOR\<close>.
  Columns are natural numbers: every caller passes an element of \<open>range(COLUMNCOUNT)\<close>
  or a literal column.
\<close>

type_synonym state = "int \<times> int \<times> int"

definition ROWCOUNT :: nat where
  "ROWCOUNT = 6"

definition COLUMNCOUNT :: nat where
  "COLUMNCOUNT = 7"

definition boardMask :: int where
  "boardMask = 4398046511103"

definition colMask :: int where
  "colMask = 63"

definition rowMask :: int where
  "rowMask = 69810262081"

definition leftMask :: "int list" where
  "leftMask = [34630287489, 541098242, 8454660, 2216338399296, 1108169199616, 554084597760]"

definition rightMask :: "int list" where
  "rightMask = [1108378656, 17318416, 270600, 70936233984, 141872463872, 283744665600]"

text \<open>
  \<open>state[i]\<close> on a tuple of three entries: indices \<open>-3 .. 2\<close> are valid (negative ones
  count from the end), any other index raises IndexError, which is \<open>None\<close> here.
\<close>

definition state_at :: "state \<Rightarrow> int \<Rightarrow> int option" where
  "state_at s i =
     (if i = 0 \<or> i = - 3 then Some (fst s)
      else if i = 1 \<or> i = - 2 then Some (fst (snd s))
      else if i = 2 \<or> i = - 1 then Some (snd (snd s))
      else None)"

definition start :: state where
  "start = (0, 0, 1)"

definition updateState :: "state \<Rightarrow> nat \<Rightarrow> state option" where
  "updateState s col =
     (let playerIndex = snd (snd s) - 1;
          opponentIndex = 1 - playerIndex;
          shift = ROWCOUNT * col;
          cMask = push_bit shift colMask
      in do {
        sp \<leftarrow> state_at s playerIndex;
        so \<leftarrow> state_at s opponentIndex;
        let playerMask = sp AND cMask;
        let opponentMask = so AND cMask;
        let curr = playerMask OR opponentMask;
        let new = (push_bit 1 curr OR push_bit shift 1) XOR opponentMask;
        let playerCol = sp OR new;
        Some (if playerIndex = 0 then (playerCol, fst (snd s), 3 - snd (snd s))
              else (fst s, playerCol, 3 - snd (snd s)))
      })"

definition isColumnFull :: "state \<Rightarrow> nat \<Rightarrow> bool" where
  "isColumnFull s col =
     (let mask = push_bit (ROWCOUNT * col) colMask
      in (fst s OR fst (snd s)) AND mask = mask)"

definition getLegalMoves :: "state \<Rightarrow> nat list" where
  "getLegalMoves s = filter (\<lambda>col. \<not> isColumnFull s col) [0..<COLUMNCOUNT]"

definition isLegalMove :: "state \<Rightarrow> nat \<Rightarrow> bool" where
  "isLegalMove s col = (col < COLUMNCOUNT \<and> \<not> isColumnFull s col)"

definition isBoardFull :: "state \<Rightarrow> bool" where
  "isBoardFull s = (fst s OR fst (snd s) = boardMask)"

definition hasColWinner :: "int \<Rightarrow> bool" where
  "hasColWinner playerMask =
     list_ex (\<lambda>col. let cm = playerMask AND push_bit (ROWCOUNT * col) colMask
                    in cm AND push_bit 1 cm AND push_bit 2 cm AND push_bit 3 cm \<noteq> 0)
       [0..<COLUMNCOUNT]"

definition hasRowWinner :: "int \<Rightarrow> bool" where
  "hasRowWinner playerMask =
     list_ex (\<lambda>row. let rm = playerMask AND push_bit row rowMask
                    in rm AND push_bit ROWCOUNT rm AND push_bit (ROWCOUNT * 2) rm
                         AND push_bit (ROWCOUNT * 3) rm \<noteq> 0)
       [0..<ROWCOUNT]"

definition hasDiagonalWinner :: "int \<Rightarrow> bool" where
  "hasDiagonalWinner playerMask =
     (list_ex (\<lambda>mask. let lm = playerMask AND mask
                      in lm AND push_bit COLUMNCOUNT lm AND push_bit (COLUMNCOUNT * 2) lm
                           AND push_bit (COLUMNCOUNT * 3) lm \<noteq> 0) leftMask
      \<or> (let inc = ROWCOUNT - 1
         in list_ex (\<lambda>mask. let rm = playerMask AND mask
                            in rm AND drop_bit inc rm AND drop_bit (inc * 2) rm
                                 AND drop_bit (inc * 3) rm \<noteq> 0) rightMask))"

definition hasWinner :: "state \<Rightarrow> int option" where
  "hasWinner s = do {
     mask \<leftarrow> state_at s (2 - snd (snd s));
     Some (if hasRowWinner mask \<or> hasColWinner mask \<or> hasDiagonalWinner mask
           then 3 - snd (snd s) else 0)
   }"

text \<open>
  A sequence of drops: \<open>updateState\<close> applied once for each column of the list, from
  left to right, stopping at the first call that raises.
\<close>

fun drops :: "state \<Rightarrow> nat list \<Rightarrow> state option" where
  "drops s [] = Some s"
| "drops s (col # cols) = (case updateState s col of None \<Rightarrow> None | Some s' \<Rightarrow> drops s' cols)"


text \<open>
  The states a game can reach: \<open>start()\<close>, and every state that \<open>updateState\<close> returns
  for a move that \<open>isLegalMove\<close> accepts.
\<close>

inductive reachable :: "state \<Rightarrow> bool" where
  reachable_start: "reachable start"
| reachable_move:
    "reachable s \<Longrightarrow> isLegalMove s col \<Longrightarrow> updateState s col = Some s' \<Longrightarrow> reachable s'"

text \<open>
  The invariant behind the column arithmetic of \<open>updateState\<close>: the turn is 1 or 2, no
  bit belongs to both players, and the occupied bits of column \<open>c\<close> are exactly the
  lowest \<open>hs c\<close> of its six bits (pieces stack from the bottom).
\<close>

definition board_inv :: "(nat \<Rightarrow> nat) \<Rightarrow> state \<Rightarrow> bool" where
  "board_inv hs s \<longleftrightarrow>
     (snd (snd s) = 1 \<or> snd (snd s) = 2) \<and> (\<forall>c. hs c \<le> 6) \<and>
     (\<forall>n. \<not> (bit (fst s) n \<and> bit (fst (snd s)) n)) \<and>
     (\<forall>n. (bit (fst s) n \<or> bit (fst (snd s)) n) = (n < 42 \<and> n mod 6 < hs (n div 6)))"

section \<open>Connect four: the Monte-Carlo engine (class AI of ConnectFourUtility.py)\<close>

text \<open>
  The engine owns the list of played states and the two dictionaries \<open>plays\<close> and
  \<open>wins\<close>. Play counts are Python integers; win counts are floats that only ever hold
  multiples of one half, and the exploration constant (\<open>self.constant\<close>, the field
  \<open>constant_C\<close>) is a float: both are \<open>real\<close> here. The wall clock is replaced by the list of simulations that fit into the time
  budget, and \<open>random.choice\<close> by the number it draws.
\<close>

record ai =
  states :: "state list"
  plays :: "state \<rightharpoonup> int"
  wins :: "state \<rightharpoonup> real"
  maxDepth :: nat
  constant_C :: real

text \<open>What \<open>getNextMoves\<close> returns: \<open>False\<close>, a column, or \<open>None\<close>.\<close>

datatype next_move = NoLegalMove | Column nat | NoneMove

definition updateStates :: "ai \<Rightarrow> state \<Rightarrow> ai" where
  "updateStates a s = a\<lparr>states := states a @ [s]\<rparr>"

text \<open>\<open>choice(seq)\<close> returns \<open>seq[i]\<close> for a random index \<open>i\<close>; an empty sequence raises.\<close>

definition choice :: "nat \<Rightarrow> 'a list \<Rightarrow> 'a option" where
  "choice r xs = (if xs = [] then None else Some (xs ! (r mod length xs)))"

text \<open>
  The value \<open>wins[pos] / plays[pos] + C * sqrt(log(TotalPlay) / plays[pos])\<close>, with the
  KeyError, ZeroDivisionError and math domain errors of Python as \<open>None\<close>.
\<close>

definition uctValue :: "ai \<Rightarrow> int \<Rightarrow> state \<Rightarrow> real option" where
  "uctValue a TotalPlay pos =
     (case wins a pos of None \<Rightarrow> None | Some w \<Rightarrow>
      (case plays a pos of None \<Rightarrow> None | Some p \<Rightarrow>
        if p = 0 then None
        else if TotalPlay \<le> 0 then None
        else if ln (real_of_int TotalPlay) / real_of_int p < 0 then None
        else Some (w / real_of_int p
                   + constant_C a * sqrt (ln (real_of_int TotalPlay) / real_of_int p))))"

text \<open>
  The choice of the child in one iteration of the descent: the UCT maximum (Python's
  \<open>max\<close> over pairs \<open>(value, pos)\<close>, compared lexicographically) when every child is a key
  of \<open>plays\<close>, a random child otherwise.
\<close>

definition selectChild :: "ai \<Rightarrow> nat \<Rightarrow> state list \<Rightarrow> state option" where
  "selectChild a r nextStates =
     (if list_all (\<lambda>pos. plays a pos \<noteq> None) nextStates then
        (let TotalPlay = sum_list (map (\<lambda>pos. case plays a pos of None \<Rightarrow> 0 | Some p \<Rightarrow> p) nextStates)
         in do {
           vs \<leftarrow> those (map (\<lambda>pos. map_option (\<lambda>v. (v, pos)) (uctValue a TotalPlay pos)) nextStates);
           (if vs = [] then None else Some (snd (fold max (tl vs) (hd vs))))
         })
      else choice r nextStates)"

record simulation =
  engine :: ai
  current :: state
  visitedState :: "state list"
  expand :: bool
  draw :: bool
  win :: int

text \<open>
  The loop \<open>for depth in range(self.maxDepth)\<close> of \<open>runSimulation\<close>; \<open>rnd depth\<close> is the
  number drawn by \<open>choice\<close> in iteration \<open>depth\<close>.
\<close>

fun descent :: "(nat \<Rightarrow> nat) \<Rightarrow> nat list \<Rightarrow> simulation \<Rightarrow> simulation option" where
  "descent rnd [] sm = Some sm"
| "descent rnd (depth # depths) sm =
     (let legal = getLegalMoves (current sm) in
      if length legal = 0 then Some (sm\<lparr>draw := True\<rparr>)
      else do {
        nextStates \<leftarrow> those (map (updateState (current sm)) legal);
        state \<leftarrow> selectChild (engine sm) (rnd depth) nextStates;
        let fresh = (expand sm \<and> plays (engine sm) state = None);
        let a = (if fresh
                 then (engine sm)\<lparr>plays := (plays (engine sm))(state \<mapsto> 0),
                                  wins := (wins (engine sm))(state \<mapsto> 0)\<rparr>
                 else engine sm);
        w \<leftarrow> hasWinner state;
        let sm' = sm\<lparr>engine := a, current := state,
                     visitedState := List.insert state (visitedState sm),
                     expand := (if fresh then False else expand sm), win := w\<rparr>;
        (if w \<noteq> 0 then Some sm' else descent rnd depths sm')
      })"

text \<open>The two loops after the playout, over the visited states.\<close>

fun backpropagate :: "bool \<Rightarrow> int \<Rightarrow> state list \<Rightarrow> ai \<Rightarrow> ai option" where
  "backpropagate d w [] a = Some a"
| "backpropagate d w (pos # rest) a =
     (case plays a pos of None \<Rightarrow> backpropagate d w rest a
      | Some p \<Rightarrow>
        (case wins a pos of None \<Rightarrow> None
         | Some x \<Rightarrow>
           backpropagate d w rest
             (a\<lparr>plays := (plays a)(pos \<mapsto> p + 1),
                wins := (wins a)(pos \<mapsto> (if d then x + 1 / 2
                                          else if 3 - snd (snd pos) = w then x + 1 else x))\<rparr>)))"

definition runSimulation :: "(nat \<Rightarrow> nat) \<Rightarrow> ai \<Rightarrow> ai option" where
  "runSimulation rnd a =
     (if states a = [] then None
      else do {
        sm \<leftarrow> descent rnd [0..<maxDepth a]
               \<lparr>engine = a, current = last (states a), visitedState = [],
                expand = True, draw = False, win = 0\<rparr>;
        backpropagate (draw sm) (win sm) (visitedState sm) (engine sm)
      })"

text \<open>
  The loop \<open>while default_timer() - start < self.calculationTime: self.runSimulation()\<close>:
  one entry of the list for each simulation that the time budget admits.
\<close>

fun runSimulations :: "(nat \<Rightarrow> nat) list \<Rightarrow> ai \<Rightarrow> ai option" where
  "runSimulations [] a = Some a"
| "runSimulations (rnd # rnds) a =
     (case runSimulation rnd a of None \<Rightarrow> None | Some a' \<Rightarrow> runSimulations rnds a')"

text \<open>The loop \<open>for move in legal\<close> that selects the best move.\<close>

fun selectMove :: "ai \<Rightarrow> state \<Rightarrow> nat list \<Rightarrow> next_move \<Rightarrow> real \<Rightarrow> next_move option" where
  "selectMove a state [] nextMove highestWinRate = Some nextMove"
| "selectMove a state (move # moves) nextMove highestWinRate =
     (case updateState state move of None \<Rightarrow> None
      | Some nextState \<Rightarrow>
        (let w = (case wins a nextState of None \<Rightarrow> 0 | Some x \<Rightarrow> x);
             p = (case plays a nextState of None \<Rightarrow> 1 | Some n \<Rightarrow> n)
         in if p = 0 then None
            else (let winRate = w / real_of_int p
                  in if winRate > highestWinRate then selectMove a state moves (Column move) winRate
                     else selectMove a state moves nextMove highestWinRate)))"

definition getNextMoves :: "(nat \<Rightarrow> nat) list \<Rightarrow> ai \<Rightarrow> (next_move \<times> ai) option" where
  "getNextMoves rnds a =
     (if states a = [] then None
      else (let state = last (states a); legal = getLegalMoves state in
        if length legal = 0 then Some (NoLegalMove, a)
        else if length legal = 1 then Some (Column (legal ! 0), a)
        else do {
          a' \<leftarrow> runSimulations rnds a;
          nextMove \<leftarrow> selectMove a' state legal NoneMove 0;
          Some (nextMove, a')
        }))"

text \<open>
  The win rate \<open>wins.get(nextState, 0) / plays.get(nextState, 1)\<close> of the child of a
  move, and the condition under which the selection loop computes it for every move
  of a list without raising: \<open>updateState\<close> returns, and no stored play count is 0.
\<close>

definition childRate :: "ai \<Rightarrow> state \<Rightarrow> nat \<Rightarrow> real" where
  "childRate a state move =
     (case updateState state move of None \<Rightarrow> 0
      | Some nextState \<Rightarrow>
          (case wins a nextState of None \<Rightarrow> 0 | Some x \<Rightarrow> x)
          / real_of_int (case plays a nextState of None \<Rightarrow> 1 | Some n \<Rightarrow> n))"

definition ratesDefined :: "ai \<Rightarrow> state \<Rightarrow> nat list \<Rightarrow> bool" where
  "ratesDefined a state moves =
     list_all (\<lambda>move. case updateState state move of None \<Rightarrow> False
                       | Some nextState \<Rightarrow> plays a nextState \<noteq> Some 0) moves"

section \<open>Five in a row: the board (class ConnectFiveBoard of Gomoku.py)\<close>

text \<open>
  A square holds \<open>None\<close> or the string of a piece. Rows, columns and the hash key are
  Python integers. \<open>xs[i]\<close> on a list accepts \<open>-len(xs) \<le> i < len(xs)\<close> and raises
  IndexError otherwise; every function that can raise returns an option, \<open>None\<close> for
  the exception.
\<close>

type_synonym square = "string option"

record grid =
  size_g :: int
  board :: "square list list"
  undoStack :: "(int \<times> int \<times> string) list"
  hashKey :: int
  squareValue :: "(int \<times> int) list list"

definition list_get :: "'a list \<Rightarrow> int \<Rightarrow> 'a option" where
  "list_get xs i =
     (let n = int (length xs)
      in if 0 \<le> i \<and> i < n then Some (xs ! nat i)
         else if - n \<le> i \<and> i < 0 then Some (xs ! nat (n + i))
         else None)"

definition list_set :: "'a list \<Rightarrow> int \<Rightarrow> 'a \<Rightarrow> 'a list option" where
  "list_set xs i v =
     (let n = int (length xs)
      in if 0 \<le> i \<and> i < n then Some (xs[nat i := v])
         else if - n \<le> i \<and> i < 0 then Some (xs[nat (n + i) := v])
         else None)"

text \<open>\<open>m[row][col]\<close> and \<open>m[row][col] = v\<close> on a list of lists.\<close>

definition getSquare :: "'a list list \<Rightarrow> int \<Rightarrow> int \<Rightarrow> 'a option" where
  "getSquare m row col = do { r \<leftarrow> list_get m row; list_get r col }"

definition setSquare :: "'a list list \<Rightarrow> int \<Rightarrow> int \<Rightarrow> 'a \<Rightarrow> 'a list list option" where
  "setSquare m row col v = do { r \<leftarrow> list_get m row; r' \<leftarrow> list_set r col v; list_set m row r' }"

text \<open>
  \<open>__init__\<close>: the random hash key of the empty board and the random table of square
  values are arguments.
\<close>

definition ConnectFiveBoard :: "int \<Rightarrow> int \<Rightarrow> (int \<times> int) list list \<Rightarrow> grid" where
  "ConnectFiveBoard n key table =
     \<lparr>size_g = n, board = replicate (nat n) (replicate (nat n) None), undoStack = [],
      hashKey = key, squareValue = table\<rparr>"

text \<open>The shape that \<open>__init__\<close> builds and that every method keeps.\<close>

definition wf_grid :: "grid \<Rightarrow> bool" where
  "wf_grid g \<longleftrightarrow>
     0 \<le> size_g g \<and>
     length (board g) = nat (size_g g) \<and> list_all (\<lambda>r. length r = nat (size_g g)) (board g) \<and>
     length (squareValue g) = nat (size_g g) \<and>
     list_all (\<lambda>r. length r = nat (size_g g)) (squareValue g)"

text \<open>\<open>self.squareValue[row][col][0 if piece == "X" else 1]\<close>, once the pair is read.\<close>

definition pieceValue :: "int \<times> int \<Rightarrow> string \<Rightarrow> int" where
  "pieceValue v piece = (if piece = ''X'' then fst v else snd v)"

definition placePiece :: "grid \<Rightarrow> int \<Rightarrow> int \<Rightarrow> string \<Rightarrow> grid option" where
  "placePiece g row col piece = do {
     b \<leftarrow> setSquare (board g) row col (Some piece);
     v \<leftarrow> getSquare (squareValue g) row col;
     Some (g\<lparr>board := b, undoStack := undoStack g @ [(row, col, piece)],
             hashKey := hashKey g XOR pieceValue v piece\<rparr>)
   }"

definition undoMove :: "grid \<Rightarrow> grid option" where
  "undoMove g =
     (if undoStack g = [] then None
      else (case last (undoStack g) of (row, col, piece) \<Rightarrow> do {
        b \<leftarrow> setSquare (board g) row col None;
        v \<leftarrow> getSquare (squareValue g) row col;
        Some (g\<lparr>board := b, undoStack := butlast (undoStack g),
                hashKey := hashKey g XOR pieceValue v piece\<rparr>)
      }))"

definition isLegalMove_grid :: "grid \<Rightarrow> int \<Rightarrow> int \<Rightarrow> bool option" where
  "isLegalMove_grid g row col =
     (if 0 \<le> row \<and> row < size_g g \<and> 0 \<le> col \<and> col < size_g g
      then map_option (\<lambda>sq. sq = None) (getSquare (board g) row col)
      else Some False)"

definition userPlacePiece :: "grid \<Rightarrow> int \<Rightarrow> int \<Rightarrow> string \<Rightarrow> (bool \<times> grid) option" where
  "userPlacePiece g row col piece = do {
     legal \<leftarrow> isLegalMove_grid g row col;
     if legal \<and> (piece = ''X'' \<or> piece = ''O'') then do {
       b \<leftarrow> setSquare (board g) row col (Some piece);
       v \<leftarrow> getSquare (squareValue g) row col;
       Some (True, g\<lparr>board := b, undoStack := undoStack g @ [(row, col, piece)],
                     hashKey := hashKey g XOR pieceValue v piece\<rparr>)
     } else Some (False, g)
   }"

definition userUndoMove :: "grid \<Rightarrow> grid option" where
  "userUndoMove g =
     (if length (undoStack g) \<ge> 2 then
        (case last (undoStack g) of (row, col, piece) \<Rightarrow> do {
           v \<leftarrow> getSquare (squareValue g) row col;
           let g1 = g\<lparr>undoStack := butlast (undoStack g),
                      hashKey := hashKey g XOR pieceValue v piece\<rparr>;
           (case last (undoStack g1) of (row', col', piece') \<Rightarrow> do {
              v' \<leftarrow> getSquare (squareValue g1) row' col';
              Some (g1\<lparr>undoStack := butlast (undoStack g1),
                       hashKey := hashKey g1 XOR pieceValue v' piece'\<rparr>)
            })
         })
      else Some g)"

definition isBoardEmpty :: "grid \<Rightarrow> bool" where
  "isBoardEmpty g = list_all (\<lambda>row. list_all (\<lambda>sq. sq = None) row) (board g)"

definition isBoardFull_grid :: "grid \<Rightarrow> bool" where
  "isBoardFull_grid g = list_all (\<lambda>row. list_all (\<lambda>sq. sq \<noteq> None) row) (board g)"

text \<open>\<open>range(lo, hi)\<close> on integers, and \<open>a or b\<close> where evaluating \<open>b\<close> may raise.\<close>

definition py_range :: "int \<Rightarrow> int \<Rightarrow> int list" where
  "py_range lo hi = [lo..hi - 1]"

definition py_or :: "bool option \<Rightarrow> bool option \<Rightarrow> bool option" where
  "py_or a b = (case a of None \<Rightarrow> None | Some x \<Rightarrow> if x then Some True else b)"

text \<open>
  The four \<open>has...Combination\<close> methods run the same loop; they differ in the square
  that index \<open>i\<close> of the loop visits (\<open>sq\<close>) and in the squares beyond the two ends of
  the streak that ends at \<open>i\<close> (\<open>firstEnd\<close>, \<open>secondEnd\<close>).
\<close>

fun combinationLoop ::
  "(int \<Rightarrow> square option) \<Rightarrow> (int \<Rightarrow> bool option) \<Rightarrow> (int \<Rightarrow> bool option) \<Rightarrow>
   string \<Rightarrow> int \<Rightarrow> int \<Rightarrow> int list \<Rightarrow> int \<Rightarrow> bool option" where
  "combinationLoop sq firstEnd secondEnd piece criteria blockedEnds [] consecutive = Some False"
| "combinationLoop sq firstEnd secondEnd piece criteria blockedEnds (i # rest) consecutive =
     (case sq i of None \<Rightarrow> None
      | Some s \<Rightarrow>
        if s = Some piece then
          (if consecutive + 1 = criteria then
             (if blockedEnds = 2 then Some True
              else (case firstEnd i of None \<Rightarrow> None
                    | Some e1 \<Rightarrow>
                      (case secondEnd i of None \<Rightarrow> None
                       | Some e2 \<Rightarrow>
                         if blockedEnds = 1 \<and> (e1 \<or> e2) then Some True
                         else if e1 \<and> e2 then Some True
                         else combinationLoop sq firstEnd secondEnd piece criteria blockedEnds
                                rest (consecutive + 1))))
           else combinationLoop sq firstEnd secondEnd piece criteria blockedEnds rest
                  (consecutive + 1))
        else combinationLoop sq firstEnd secondEnd piece criteria blockedEnds rest 0)"

text \<open>\<open>inside and self.board[r][c] != opponent\<close>.\<close>

definition notOpponent :: "grid \<Rightarrow> bool \<Rightarrow> int \<Rightarrow> int \<Rightarrow> string \<Rightarrow> bool option" where
  "notOpponent g inside r c opponent =
     (if inside then map_option (\<lambda>sq. sq \<noteq> Some opponent) (getSquare (board g) r c)
      else Some False)"

definition opponentOf :: "string \<Rightarrow> string" where
  "opponentOf piece = (if piece = ''O'' then ''X'' else ''O'')"

definition hasRowCombination :: "grid \<Rightarrow> int \<Rightarrow> int \<Rightarrow> string \<Rightarrow> int \<Rightarrow> int \<Rightarrow> bool option" where
  "hasRowCombination g row col piece criteria blockedEnds =
     combinationLoop
       (\<lambda>eachCol. getSquare (board g) row eachCol)
       (\<lambda>eachCol. notOpponent g (eachCol - criteria \<ge> 0) row (eachCol - criteria) (opponentOf piece))
       (\<lambda>eachCol. notOpponent g (eachCol + 1 < size_g g) row (eachCol + 1) (opponentOf piece))
       piece criteria blockedEnds
       (py_range (max 0 (col - criteria + 1)) (min (size_g g) (col + criteria))) 0"

definition hasColCombination :: "grid \<Rightarrow> int \<Rightarrow> int \<Rightarrow> string \<Rightarrow> int \<Rightarrow> int \<Rightarrow> bool option" where
  "hasColCombination g row col piece criteria blockedEnds =
     combinationLoop
       (\<lambda>eachRow. getSquare (board g) eachRow col)
       (\<lambda>eachRow. notOpponent g (eachRow - criteria \<ge> 0) (eachRow - criteria) col (opponentOf piece))
       (\<lambda>eachRow. notOpponent g (eachRow + 1 < size_g g) (eachRow + 1) col (opponentOf piece))
       piece criteria blockedEnds
       (py_range (max 0 (row - criteria + 1)) (min (size_g g) (row + criteria))) 0"

definition hasLeftDiagonalCombination ::
  "grid \<Rightarrow> int \<Rightarrow> int \<Rightarrow> string \<Rightarrow> int \<Rightarrow> int \<Rightarrow> bool option" where
  "hasLeftDiagonalCombination g row col piece criteria blockedEnds =
     combinationLoop
       (\<lambda>inc. getSquare (board g) (row + inc) (col + inc))
       (\<lambda>inc. notOpponent g (row + inc - criteria \<ge> 0 \<and> col + inc - criteria \<ge> 0)
                 (row + inc - criteria) (col + inc - criteria) (opponentOf piece))
       (\<lambda>inc. notOpponent g (row + inc + 1 < size_g g \<and> col + inc + 1 < size_g g)
                 (row + inc + 1) (col + inc + 1) (opponentOf piece))
       piece criteria blockedEnds
       (py_range (- 1 * min row (min col (criteria - 1)))
                 (min (size_g g - row) (min (size_g g - col) criteria))) 0"

definition hasRightDiagonalCombination ::
  "grid \<Rightarrow> int \<Rightarrow> int \<Rightarrow> string \<Rightarrow> int \<Rightarrow> int \<Rightarrow> bool option" where
  "hasRightDiagonalCombination g row col piece criteria blockedEnds =
     combinationLoop
       (\<lambda>inc. getSquare (board g) (row + inc) (col - inc))
       (\<lambda>inc. notOpponent g (row + inc - criteria \<ge> 0 \<and> col - inc + criteria < size_g g)
                 (row + inc - criteria) (col - inc + criteria) (opponentOf piece))
       (\<lambda>inc. notOpponent g (row + inc + 1 < size_g g \<and> col - inc - 1 \<ge> 0)
                 (row + inc + 1) (col - inc - 1) (opponentOf piece))
       piece criteria blockedEnds
       (py_range (- 1 * min row (min (size_g g - col - 1) (criteria - 1)))
                 (min (size_g g - row) (min (col + 1) criteria))) 0"

text \<open>The test shared by \<open>selfHasFour\<close> and \<open>opponentHasFour\<close> on one move of the stack.\<close>

definition hasFourAt :: "grid \<Rightarrow> int \<times> int \<times> string \<Rightarrow> bool option" where
  "hasFourAt g m =
     (case m of (row, col, piece) \<Rightarrow>
        py_or (hasRowCombination g row col piece 4 1)
          (py_or (hasColCombination g row col piece 4 1)
             (py_or (hasLeftDiagonalCombination g row col piece 4 1)
                    (hasRightDiagonalCombination g row col piece 4 1))))"

definition selfHasFour :: "grid \<Rightarrow> bool option" where
  "selfHasFour g =
     (if length (undoStack g) > 8 then hasFourAt g (undoStack g ! (length (undoStack g) - 2))
      else Some False)"

definition opponentHasFour :: "grid \<Rightarrow> bool option" where
  "opponentHasFour g =
     (if length (undoStack g) > 6 then hasFourAt g (last (undoStack g))
      else Some False)"

definition hasWinner_grid :: "grid \<Rightarrow> bool option" where
  "hasWinner_grid g =
     (if undoStack g \<noteq> [] then
        (case last (undoStack g) of (row, col, piece) \<Rightarrow>
           py_or (hasRowCombination g row col piece 5 2)
             (py_or (hasColCombination g row col piece 5 2)
                (py_or (hasLeftDiagonalCombination g row col piece 5 2)
                       (hasRightDiagonalCombination g row col piece 5 2))))
      else Some False)"

text \<open>
  The four \<open>findQuick...Move\<close> methods share their loop as well. The result is the
  pair \<open>(winRow, winCol)\<close> when the status is \<open>True\<close> and \<open>None\<close> when it is \<open>False\<close>.
\<close>

definition emptyAt :: "grid \<Rightarrow> bool \<Rightarrow> int \<Rightarrow> int \<Rightarrow> bool option" where
  "emptyAt g inside r c =
     (if inside then map_option (\<lambda>sq. sq = None) (getSquare (board g) r c) else Some False)"

text \<open>The two tests after \<open>if consecutive == 4\<close>: the first free end, if there is one.\<close>

definition freeEnd ::
  "bool option \<Rightarrow> int \<times> int \<Rightarrow> bool option \<Rightarrow> int \<times> int \<Rightarrow> (int \<times> int) option option" where
  "freeEnd e1 rc1 e2 rc2 =
     (case e1 of None \<Rightarrow> None
      | Some a \<Rightarrow> if a then Some (Some rc1)
                  else (case e2 of None \<Rightarrow> None
                        | Some b \<Rightarrow> if b then Some (Some rc2) else Some None))"

fun quickLoop ::
  "(int \<Rightarrow> square option) \<Rightarrow> (int \<Rightarrow> (int \<times> int) option option) \<Rightarrow> string \<Rightarrow>
   int list \<Rightarrow> int \<Rightarrow> (int \<times> int) option option" where
  "quickLoop sq ends piece [] consecutive = Some None"
| "quickLoop sq ends piece (i # rest) consecutive =
     (case sq i of None \<Rightarrow> None
      | Some s \<Rightarrow>
        if s = Some piece then
          (if consecutive + 1 = 4 then
             (case ends i of None \<Rightarrow> None
              | Some (Some rc) \<Rightarrow> Some (Some rc)
              | Some None \<Rightarrow> quickLoop sq ends piece rest (consecutive + 1))
           else quickLoop sq ends piece rest (consecutive + 1))
        else quickLoop sq ends piece rest 0)"

definition findQuickRowMove :: "grid \<Rightarrow> int \<Rightarrow> int \<Rightarrow> string \<Rightarrow> (int \<times> int) option option" where
  "findQuickRowMove g row col piece =
     quickLoop
       (\<lambda>eachCol. getSquare (board g) row eachCol)
       (\<lambda>eachCol. freeEnd (emptyAt g (eachCol - 4 \<ge> 0) row (eachCol - 4)) (row, eachCol - 4)
                          (emptyAt g (eachCol + 1 < size_g g) row (eachCol + 1)) (row, eachCol + 1))
       piece (py_range (max 0 (col - 3)) (min (size_g g) (col + 4))) 0"

definition findQuickColMove :: "grid \<Rightarrow> int \<Rightarrow> int \<Rightarrow> string \<Rightarrow> (int \<times> int) option option" where
  "findQuickColMove g row col piece =
     quickLoop
       (\<lambda>eachRow. getSquare (board g) eachRow col)
       (\<lambda>eachRow. freeEnd (emptyAt g (eachRow - 4 \<ge> 0) (eachRow - 4) col) (eachRow - 4, col)
                          (emptyAt g (eachRow + 1 < size_g g) (eachRow + 1) col) (eachRow + 1, col))
       piece (py_range (max 0 (row - 3)) (min (size_g g) (row + 4))) 0"

definition findQuickLeftDiagonalMove ::
  "grid \<Rightarrow> int \<Rightarrow> int \<Rightarrow> string \<Rightarrow> (int \<times> int) option option" where
  "findQuickLeftDiagonalMove g row col piece =
     quickLoop
       (\<lambda>inc. getSquare (board g) (row + inc) (col + inc))
       (\<lambda>inc. freeEnd
                 (emptyAt g (row + inc - 4 \<ge> 0 \<and> col + inc - 4 \<ge> 0) (row + inc - 4) (col + inc - 4))
                 (row + inc - 4, col + inc - 4)
                 (emptyAt g (row + inc + 1 < size_g g \<and> col + inc + 1 < size_g g)
                    (row + inc + 1) (col + inc + 1))
                 (row + inc + 1, col + inc + 1))
       piece
       (py_range (- 1 * min row (min col 3)) (min (size_g g - row) (min (size_g g - col) 4))) 0"

definition findQuickRightDiagonalMove ::
  "grid \<Rightarrow> int \<Rightarrow> int \<Rightarrow> string \<Rightarrow> (int \<times> int) option option" where
  "findQuickRightDiagonalMove g row col piece =
     quickLoop
       (\<lambda>inc. getSquare (board g) (row + inc) (col - inc))
       (\<lambda>inc. freeEnd
                 (emptyAt g (row + inc - 4 \<ge> 0 \<and> col - inc + 4 < size_g g) (row + inc - 4) (col - inc + 4))
                 (row + inc - 4, col - inc + 4)
                 (emptyAt g (row + inc + 1 < size_g g \<and> col - inc - 1 \<ge> 0)
                    (row + inc + 1) (col - inc - 1))
                 (row + inc + 1, col - inc - 1))
       piece
       (py_range (- 1 * min row (min (size_g g - col - 1) 3)) (min (size_g g - row) (min (col + 1) 4))) 0"

text \<open>
  \<open>findQuickMove\<close> falls off its end, returning \<open>None\<close>, when no direction has a move:
  that is the inner \<open>None\<close>.
\<close>

definition findQuickMove :: "grid \<Rightarrow> int \<Rightarrow> int \<Rightarrow> string \<Rightarrow> (int \<times> int) option option" where
  "findQuickMove g row col piece =
     (case findQuickRowMove g row col piece of None \<Rightarrow> None
      | Some (Some rc) \<Rightarrow> Some (Some rc)
      | Some None \<Rightarrow>
     (case findQuickColMove g row col piece of None \<Rightarrow> None
      | Some (Some rc) \<Rightarrow> Some (Some rc)
      | Some None \<Rightarrow>
     (case findQuickLeftDiagonalMove g row col piece of None \<Rightarrow> None
      | Some (Some rc) \<Rightarrow> Some (Some rc)
      | Some None \<Rightarrow> findQuickRightDiagonalMove g row col piece)))"

definition findQuickWin :: "grid \<Rightarrow> (int \<times> int) option option" where
  "findQuickWin g =
     (case list_get (undoStack g) (- 2) of None \<Rightarrow> None
      | Some (row, col, piece) \<Rightarrow> findQuickMove g row col piece)"

definition findForcedBlock :: "grid \<Rightarrow> (int \<times> int) option option" where
  "findForcedBlock g =
     (case list_get (undoStack g) (- 1) of None \<Rightarrow> None
      | Some (row, col, piece) \<Rightarrow> findQuickMove g row col piece)"

section \<open>Five in a row: the evaluation (class ConnectFiveEngine of Gomoku.py)\<close>

text \<open>
  The dictionary \<open>self.combinationScore\<close>. Its values are integers and floats with
  at most one binary digit after the point, so their sums are exact; they are \<open>real\<close>
  here.
\<close>

definition combinationScore :: "int \<times> int \<times> bool \<rightharpoonup> real" where
  "combinationScore = map_of
     [((5, 0, True), 200000000), ((5, 0, False), 200000000), ((5, 1, True), 200000000),
      ((5, 1, False), 200000000), ((5, 2, True), 200000000), ((5, 2, False), 200000000),
      ((4, 0, True), 100000000), ((4, 0, False), 50000000), ((4, 1, True), 100000000),
      ((4, 1, False), 50), ((3, 0, True), 10000), ((3, 0, False), 50), ((3, 1, True), 12.5),
      ((3, 1, False), 7.5), ((2, 0, True), 7.5), ((2, 0, False), 5), ((2, 1, True), 2),
      ((2, 1, False), 2), ((1, 0, True), 1), ((1, 0, False), 1), ((1, 1, True), 0.5),
      ((1, 1, False), 0.5)]"

text \<open>
  The loop of \<open>getHeuristicScore\<close> over \<open>enumerate(sequence)\<close>, with its three
  variables \<open>count\<close>, \<open>total\<close> (here \<open>tot\<close>) and \<open>piece\<close>. \<open>sequence[start]\<close> is read only for
  \<open>0 \<le> start < index\<close>, so it cannot raise.
\<close>

fun heuristicLoop ::
  "square list \<Rightarrow> string \<Rightarrow> (nat \<times> square) list \<Rightarrow> int \<Rightarrow> real \<Rightarrow> square \<Rightarrow> real" where
  "heuristicLoop sequence turn [] count tot piece = tot"
| "heuristicLoop sequence turn ((index, square) # rest) count tot piece =
     (if square = piece then
        (if piece = None then heuristicLoop sequence turn rest count tot piece
         else heuristicLoop sequence turn rest (count + 1) tot piece)
      else
        (let tot' =
           (case piece of None \<Rightarrow> tot
            | Some p \<Rightarrow>
              if count > 0 then
                (let start = int index - count - 1;
                     b1 = (if square \<noteq> None \<or> int index \<ge> int (length sequence) - 1
                           then 1 else 0);
                     b2 = (if start < 0 then 1
                           else if sequence ! nat start \<noteq> None then 1 else 0);
                     info = (count, b1 + b2, turn = p)
                 in (case combinationScore info of None \<Rightarrow> tot
                     | Some w \<Rightarrow> if p = ''X'' then tot + w else tot - w))
              else tot)
         in heuristicLoop sequence turn rest (if square = None then 0 else 1) tot' square))"

definition getHeuristicScore :: "square list \<Rightarrow> string \<Rightarrow> real" where
  "getHeuristicScore sequence turn =
     heuristicLoop sequence turn (List.enumerate 0 sequence) 0 0 None"

text \<open>The engine's \<open>self.size\<close> is \<open>len(self.board)\<close>, and its \<open>self.criteria\<close> is 5.\<close>

definition engineSize :: "grid \<Rightarrow> int" where
  "engineSize g = int (length (board g))"

definition criteria :: int where
  "criteria = 5"

definition horizontalHeuristic :: "grid \<Rightarrow> string \<Rightarrow> real" where
  "horizontalHeuristic g turn =
     sum_list (map (\<lambda>row. getHeuristicScore (row @ [None]) turn) (board g))"

definition getColumn :: "grid \<Rightarrow> int \<Rightarrow> square list option" where
  "getColumn g col =
     map_option (\<lambda>xs. xs @ [None])
       (those (map (\<lambda>row. getSquare (board g) row col) (py_range 0 (engineSize g))))"

definition verticalHeuristic :: "grid \<Rightarrow> string \<Rightarrow> real option" where
  "verticalHeuristic g turn =
     map_option (\<lambda>cs. sum_list (map (\<lambda>column. getHeuristicScore column turn) cs))
       (those (map (getColumn g) (py_range 0 (engineSize g))))"

text \<open>
  \<open>[None] * (n + 1)\<close> has \<open>n + 1\<close> entries, none when \<open>n + 1\<close> is not positive; the loop
  then writes the first \<open>n\<close> of them.
\<close>

definition getLeftDiagonal :: "grid \<Rightarrow> int \<Rightarrow> int \<Rightarrow> square list option" where
  "getLeftDiagonal g row col =
     (let n = engineSize g - max row col
      in map_option (\<lambda>xs. xs @ replicate (nat (n + 1) - nat n) None)
           (those (map (\<lambda>inc. getSquare (board g) (row + inc) (col + inc)) (py_range 0 n))))"

definition getRightDiagonal :: "grid \<Rightarrow> int \<Rightarrow> int \<Rightarrow> square list option" where
  "getRightDiagonal g row col =
     (let n = (if col = 0 then row + 1 else engineSize g - col)
      in map_option (\<lambda>xs. xs @ replicate (nat (n + 1) - nat n) None)
           (those (map (\<lambda>inc. getSquare (board g) (row - inc) (col + inc)) (py_range 0 n))))"

definition leftDiagonalHeuristic :: "grid \<Rightarrow> string \<Rightarrow> real option" where
  "leftDiagonalHeuristic g turn =
     (let endRow = engineSize g - criteria + 1;
          startingSquares = map (\<lambda>row. (row, 0)) (py_range 0 endRow)
                            @ map (\<lambda>col. (0, col)) (py_range 1 endRow)
      in map_option (\<lambda>ds. sum_list (map (\<lambda>diagonal. getHeuristicScore diagonal turn) ds))
           (those (map (\<lambda>(row, col). getLeftDiagonal g row col) startingSquares)))"

definition rightDiagonalHeuristic :: "grid \<Rightarrow> string \<Rightarrow> real option" where
  "rightDiagonalHeuristic g turn =
     (let initialRow = criteria - 1;
          endColumn = engineSize g - criteria + 1;
          startingSquares = map (\<lambda>row. (row, 0)) (py_range initialRow (engineSize g))
                            @ map (\<lambda>col. (engineSize g - 1, col)) (py_range 1 endColumn)
      in map_option (\<lambda>ds. sum_list (map (\<lambda>diagonal. getHeuristicScore diagonal turn) ds))
           (those (map (\<lambda>(row, col). getRightDiagonal g row col) startingSquares)))"

definition overallHeuristicScore :: "grid \<Rightarrow> string \<Rightarrow> real option" where
  "overallHeuristicScore g turn = do {
     l \<leftarrow> leftDiagonalHeuristic g turn;
     v \<leftarrow> verticalHeuristic g turn;
     r \<leftarrow> rightDiagonalHeuristic g turn;
     Some (horizontalHeuristic g turn + l + v + r)
   }"

text \<open>
  What \<open>findNextMove\<close> returns, by the \<open>return\<close> statement that produced it: the centre
  square of an empty board, the winning square of an open four, or the result of
  \<open>iteratedDeepeningSearch\<close>. The search polls the wall clock and owns the
  transposition table; it is the argument \<open>search\<close>.
\<close>

datatype 'r found = Opening real int int | QuickWin real int int | Searched 'r

definition findNextMove :: "(grid \<Rightarrow> string \<Rightarrow> 'r) \<Rightarrow> grid \<Rightarrow> string \<Rightarrow> 'r found option" where
  "findNextMove search g turn =
     (if isBoardEmpty g then
        (let row = engineSize g div 2 in do {
           g1 \<leftarrow> placePiece g row row turn;
           heuristic \<leftarrow> overallHeuristicScore g1 (if turn = ''O'' then ''X'' else ''O'');
           g2 \<leftarrow> undoMove g1;
           Some (Opening heuristic row row)
         })
      else do {
        four \<leftarrow> selfHasFour g;
        if four then
          (case findQuickWin g of None \<Rightarrow> None
           | Some None \<Rightarrow> None
           | Some (Some (winRow, winCol)) \<Rightarrow>
               Some (QuickWin (if turn = ''X'' then 200000000 else - 200000000) winRow winCol))
        else Some (Searched (search g turn))
      })"

text \<open>
  The reading of the evaluation by maximal runs. A run of \<open>n\<close> pieces of \<open>p\<close> with
  \<open>b\<close> blocked ends counts the table's weight for \<open>(n, b, turn = p)\<close>, positive for
  \<open>X\<close> and negative otherwise, and nothing when the table has no such key.
\<close>

definition contribution :: "string \<Rightarrow> string \<Rightarrow> nat \<Rightarrow> nat \<Rightarrow> real" where
  "contribution turn p n b =
     (case combinationScore (int n, int b, turn = p) of None \<Rightarrow> 0
      | Some w \<Rightarrow> if p = ''X'' then w else - w)"

text \<open>
  \<open>runsScore turn lb line\<close>: the sum of the contributions of the maximal runs of
  \<open>line\<close>, where \<open>lb\<close> says whether the square before \<open>line\<close> blocks a run that starts
  at its first square (the edge of the board or a piece). The first run is the longest
  prefix of equal pieces (\<open>takeWhile\<close>); its right end is blocked by the edge or by the
  piece that follows it.
\<close>

function runsScore :: "string \<Rightarrow> bool \<Rightarrow> square list \<Rightarrow> real" where
  "runsScore turn lb [] = 0"
| "runsScore turn lb (None # xs) = runsScore turn False xs"
| "runsScore turn lb (Some p # xs) =
     (let n = Suc (length (takeWhile (\<lambda>s. s = Some p) xs));
          rest = dropWhile (\<lambda>s. s = Some p) xs;
          rb = (case rest of [] \<Rightarrow> True | None # _ \<Rightarrow> False | Some _ # _ \<Rightarrow> True)
      in contribution turn p n ((if lb then 1 else 0) + (if rb then 1 else 0))
         + runsScore turn True rest)"
  by pat_completeness auto
termination
  by (relation "measure (\<lambda>(turn, lb, xs). length xs)")
     (auto simp: length_dropWhile_le less_Suc_eq_le)

text \<open>
  The two tests on the ends of a run in \<open>getHeuristicScore\<close>, as numbers of blocked
  ends: the right end, for the run that stops before \<open>square\<close> at \<open>index\<close>, and the left
  end, for a run of \<open>n\<close> pieces that stops before \<open>index\<close>.
\<close>

definition rightBlocked :: "square list \<Rightarrow> nat \<Rightarrow> square \<Rightarrow> nat" where
  "rightBlocked sequence index square =
     (if square \<noteq> None \<or> int index \<ge> int (length sequence) - 1 then 1 else 0)"

definition leftBlocked :: "square list \<Rightarrow> nat \<Rightarrow> nat \<Rightarrow> nat" where
  "leftBlocked sequence index n =
     (if int index - int n - 1 < 0 then 1
      else if sequence ! nat (int index - int n - 1) \<noteq> None then 1 else 0)"

section \<open>Worked positions\<close>

text \<open>
  A board of the default size 15 with a fixed table of square values and the hash key
  0 for the empty board, and the replay of a list of moves by \<open>placePiece\<close>.
\<close>

definition exampleTable :: "(int \<times> int) list list" where
  "exampleTable =
     map (\<lambda>r. map (\<lambda>c. (2 * (15 * r + c) + 1, 2 * (15 * r + c) + 2)) [0..14]) [0..14]"

definition exampleBoard :: grid where
  "exampleBoard = ConnectFiveBoard 15 0 exampleTable"

fun placePieces :: "grid \<Rightarrow> (int \<times> int \<times> string) list \<Rightarrow> grid option" where
  "placePieces g [] = Some g"
| "placePieces g ((row, col, piece) # moves) =
     (case placePiece g row col piece of None \<Rightarrow> None | Some g' \<Rightarrow> placePieces g' moves)"

section \<open>The bit board: proofs\<close>

lemma board_inv_turn: "board_inv hs s \<Longrightarrow> snd (snd s) = 1 \<or> snd (snd s) = 2"
  unfolding board_inv_def by blast

lemma board_inv_height: "board_inv hs s \<Longrightarrow> hs c \<le> 6"
  unfolding board_inv_def by blast

lemma board_inv_disj: "board_inv hs s \<Longrightarrow> \<forall>n. \<not> (bit (fst s) n \<and> bit (fst (snd s)) n)"
  unfolding board_inv_def by blast

lemma board_inv_occ:
  "board_inv hs s \<Longrightarrow> \<forall>n. (bit (fst s) n \<or> bit (fst (snd s)) n) = (n < 42 \<and> n mod 6 < hs (n div 6))"
  unfolding board_inv_def by blast

lemma colMask_mask: "colMask = mask 6"
  by (simp add: colMask_def mask_eq_exp_minus_1)

lemma boardMask_mask: "boardMask = mask 42"
  by (simp add: boardMask_def mask_eq_exp_minus_1)

lemma colMask_bit: "bit (push_bit (ROWCOUNT * c) colMask) n \<longleftrightarrow> 6 * c \<le> n \<and> n < 6 * c + 6"
  unfolding colMask_mask by (auto simp: bit_simps ROWCOUNT_def)

lemma boardMask_bit: "bit boardMask n \<longleftrightarrow> n < 42"
  unfolding boardMask_mask by (simp add: bit_simps)

lemma col_arith:
  assumes "6 * c \<le> n" "n < 6 * c + 6"
  shows "n div 6 = c \<and> n mod 6 = n - 6 * (c::nat)"
proof -
  obtain k where k: "n = 6 * c + k" using assms(1) le_Suc_ex by blast
  with assms(2) have "k < 6" by simp
  then show ?thesis unfolding k by simp
qed

lemma occ_in_col:
  assumes occ: "\<forall>n. (bit p n \<or> bit q n) = (n < 42 \<and> n mod 6 < hs (n div 6))"
    and c: "c < (7::nat)" and n: "6 * c \<le> n" "n < 6 * c + 6"
  shows "(bit (p::int) n \<or> bit (q::int) n) = (n < 6 * c + hs c)"
proof -
  have d: "n div 6 = c" and m: "n mod 6 = n - 6 * c" using col_arith[OF n] by simp_all
  have "n < 42" using c n by linarith
  then have "(bit p n \<or> bit q n) = (n - 6 * c < hs c)" using occ d m by simp
  also have "\<dots> = (n < 6 * c + hs c)" using n by linarith
  finally show ?thesis .
qed

lemma not_full_height:
  assumes inv: "board_inv hs s" and c: "c < 7" and nf: "\<not> isColumnFull s c"
  shows "hs c < 6"
proof (rule ccontr)
  assume "\<not> hs c < 6"
  moreover have "hs c \<le> 6" using inv by (rule board_inv_height)
  ultimately have h: "hs c = 6" by linarith
  note occ = board_inv_occ[OF inv]
  have "(fst s OR fst (snd s)) AND push_bit (ROWCOUNT * c) colMask = push_bit (ROWCOUNT * c) colMask"
  proof (rule bit_eqI)
    fix n
    show "bit ((fst s OR fst (snd s)) AND push_bit (ROWCOUNT * c) colMask) n = bit (push_bit (ROWCOUNT * c) colMask) n"
    proof (cases "6 * c \<le> n \<and> n < 6 * c + 6")
      case True
      then have "bit (fst s) n \<or> bit (fst (snd s)) n"
        using occ_in_col[OF occ c, of n] h by simp
      then show ?thesis by (simp add: bit_and_iff bit_or_iff colMask_bit)
    next
      case False
      then show ?thesis by (auto simp add: bit_and_iff colMask_bit)
    qed
  qed
  with nf show False by (simp add: isColumnFull_def Let_def)
qed


lemma one_bit: "bit (push_bit (ROWCOUNT * c) (1::int)) n \<longleftrightarrow> n = 6 * c"
  by (auto simp add: bit_simps ROWCOUNT_def)

lemma curr_bit:
  "bit ((p AND push_bit (ROWCOUNT * c) colMask) OR (q AND push_bit (ROWCOUNT * c) colMask)) n
     \<longleftrightarrow> (bit p n \<or> bit q n) \<and> 6 * c \<le> n \<and> n < 6 * c + 6"
  by (simp add: bit_or_iff bit_and_iff colMask_bit) blast

lemma shifted_bit: "bit (push_bit 1 (k::int)) n \<longleftrightarrow> 1 \<le> n \<and> bit k (n - 1)"
  unfolding bit_push_bit_iff_int by simp

lemma new_bits:
  "bit (p OR ((push_bit 1 ((p AND push_bit (ROWCOUNT * c) colMask) OR (q AND push_bit (ROWCOUNT * c) colMask))
                 OR push_bit (ROWCOUNT * c) 1) XOR (q AND push_bit (ROWCOUNT * c) colMask))) n
   = (bit p n \<or>
        (((1 \<le> n \<and> (bit p (n - 1) \<or> bit q (n - 1)) \<and> 6 * c \<le> n - 1 \<and> n - 1 < 6 * c + 6) \<or> n = 6 * c)
          \<noteq> (bit q n \<and> 6 * c \<le> n \<and> n < 6 * c + 6)))"
  by (simp only: bit_or_iff bit_xor_iff shifted_bit one_bit bit_and_iff colMask_bit) blast

lemma new_piece_bits:
  fixes p q :: int
  assumes disj: "\<forall>n. \<not> (bit p n \<and> bit q n)"
    and occ: "\<forall>n. (bit p n \<or> bit q n) = (n < 42 \<and> n mod 6 < hs (n div 6))"
    and c: "c < 7" and h: "hs c < 6"
  shows "p OR ((push_bit 1 ((p AND push_bit (ROWCOUNT * c) colMask) OR (q AND push_bit (ROWCOUNT * c) colMask))
                 OR push_bit (ROWCOUNT * c) 1) XOR (q AND push_bit (ROWCOUNT * c) colMask))
         = p OR push_bit (6 * c + hs c) 1" (is "?l = ?r")
proof (rule bit_eqI)
  fix n
  have R: "bit ?r n = (bit p n \<or> n = 6 * c + hs c)"
    by (auto simp add: bit_simps)
  have in_col: "(bit p m \<or> bit q m) = (m < 6 * c + hs c)" if "6 * c \<le> m" "m < 6 * c + 6" for m
    using occ_in_col[OF occ c that] .
  have nq: "\<not> bit q m" if "6 * c + hs c \<le> m" "m < 6 * c + 6" for m
    using in_col[of m] that by auto
  consider "n < 6 * c" | "n = 6 * c" | "6 * c < n" "n < 6 * c + hs c" | "6 * c < n" "n = 6 * c + hs c"
    | "6 * c + hs c < n" "n < 6 * c + 6" | "6 * c + 6 \<le> n"
    by linarith
  then have "(bit p n \<or>
        (((1 \<le> n \<and> (bit p (n - 1) \<or> bit q (n - 1)) \<and> 6 * c \<le> n - 1 \<and> n - 1 < 6 * c + 6) \<or> n = 6 * c)
          \<noteq> (bit q n \<and> 6 * c \<le> n \<and> n < 6 * c + 6))) = (bit p n \<or> n = 6 * c + hs c)"
  proof cases
    case 1
    then show ?thesis by auto
  next
    case 2
    then show ?thesis using in_col[of n] nq[of n] disj h by (cases "hs c = 0") auto
  next
    case 3
    then have a: "bit p (n - 1) \<or> bit q (n - 1)" using in_col[of "n - 1"] h by auto
    have b: "bit p n \<or> bit q n" using in_col[of n] 3 h by auto
    have c1: "1 \<le> n" "6 * c \<le> n - 1" "n - 1 < 6 * c + 6" "n \<noteq> 6 * c" "6 * c \<le> n" "n < 6 * c + 6" "n \<noteq> 6 * c + hs c"
      using 3 h by linarith+
    show ?thesis using a b c1 disj by auto
  next
    case 4
    then have a: "bit p (n - 1) \<or> bit q (n - 1)" using in_col[of "n - 1"] h by auto
    have b: "\<not> bit q n" using nq[of n] 4 h by auto
    have c1: "1 \<le> n" "6 * c \<le> n - 1" "n - 1 < 6 * c + 6"
      using 4 h by linarith+
    show ?thesis using a b c1 4 by auto
  next
    case 5
    then have a: "\<not> (bit p (n - 1) \<or> bit q (n - 1))" using in_col[of "n - 1"] h by auto
    have b: "\<not> bit q n" using nq[of n] 5 by auto
    have c1: "n \<noteq> 6 * c" "n \<noteq> 6 * c + hs c" using 5 by linarith+
    show ?thesis using a b c1 by auto
  next
    case 6
    have a: "\<not> (bit p (n - 1) \<or> bit q (n - 1))" if "n = 6 * c + 6"
      using in_col[of "n - 1"] h that by auto
    have c1: "n \<noteq> 6 * c" "n \<noteq> 6 * c + hs c" "\<not> n < 6 * c + 6" using 6 h by linarith+
    have c2: "n - 1 < 6 * c + 6 \<Longrightarrow> n = 6 * c + 6" using 6 by linarith
    show ?thesis using a c1 c2 by auto
  qed
  with new_bits[of p c q n] R show "bit ?l n = bit ?r n" by simp
qed


lemma pos_iff:
  assumes "h < 6"
  shows "(n = 6 * c + h) = (n div 6 = c \<and> n mod 6 = (h::nat))"
proof
  assume "n = 6 * c + h"
  with assms show "n div 6 = c \<and> n mod 6 = h" by simp
next
  assume a: "n div 6 = c \<and> n mod 6 = h"
  have "n = 6 * (n div 6) + n mod 6" by simp
  with a show "n = 6 * c + h" by simp
qed

lemma place_inv:
  fixes p q :: int
  assumes disj: "\<forall>n. \<not> (bit p n \<and> bit q n)"
    and occ: "\<forall>n. (bit p n \<or> bit q n) = (n < 42 \<and> n mod 6 < hs (n div 6))"
    and c: "c < 7" and h: "hs c < 6"
  shows "\<forall>n. \<not> (bit (p OR push_bit (6 * c + hs c) 1) n \<and> bit q n)"
    and "\<forall>n. (bit (p OR push_bit (6 * c + hs c) 1) n \<or> bit q n)
             = (n < 42 \<and> n mod 6 < (hs(c := Suc (hs c))) (n div 6))"
proof -
  have B: "bit (p OR push_bit (6 * c + hs c) 1) n = (bit p n \<or> n = 6 * c + hs c)" for n
    by (auto simp add: bit_simps)
  have free: "\<not> bit p (6 * c + hs c) \<and> \<not> bit q (6 * c + hs c)"
  proof -
    have "(bit p (6 * c + hs c) \<or> bit q (6 * c + hs c)) = (6 * c + hs c < 6 * c + hs c)"
      using occ_in_col[OF occ c, of "6 * c + hs c"] h by simp
    then show ?thesis by simp
  qed
  show "\<forall>n. \<not> (bit (p OR push_bit (6 * c + hs c) 1) n \<and> bit q n)"
    unfolding B using disj free by blast
  show "\<forall>n. (bit (p OR push_bit (6 * c + hs c) 1) n \<or> bit q n)
             = (n < 42 \<and> n mod 6 < (hs(c := Suc (hs c))) (n div 6))"
  proof
    fix n
    show "(bit (p OR push_bit (6 * c + hs c) 1) n \<or> bit q n)
             = (n < 42 \<and> n mod 6 < (hs(c := Suc (hs c))) (n div 6))"
    proof (cases "n div 6 = c")
      case True
      have lt: "6 * c + hs c < 42" using c h by linarith
      have "(bit p n \<or> bit q n) = (n < 42 \<and> n mod 6 < hs c)" using occ True by simp
      moreover have "(n = 6 * c + hs c) = (n mod 6 = hs c)" using pos_iff[OF h, of n c] True by simp
      moreover have "n mod 6 = hs c \<Longrightarrow> n < 42" using pos_iff[OF h, of n c] True lt by simp
      ultimately show ?thesis unfolding B using True by auto
    next
      case False
      then have "n \<noteq> 6 * c + hs c" using pos_iff[OF h, of n c] by simp
      then show ?thesis unfolding B using occ False by simp
    qed
  qed
qed

lemma updateState_turn1:
  "updateState (a, b, 1) c =
     Some (a OR ((push_bit 1 ((a AND push_bit (ROWCOUNT * c) colMask) OR (b AND push_bit (ROWCOUNT * c) colMask))
                 OR push_bit (ROWCOUNT * c) 1) XOR (b AND push_bit (ROWCOUNT * c) colMask)), b, 2)"
  unfolding updateState_def Let_def state_at_def by simp

lemma updateState_turn2:
  "updateState (a, b, 2) c =
     Some (a, b OR ((push_bit 1 ((b AND push_bit (ROWCOUNT * c) colMask) OR (a AND push_bit (ROWCOUNT * c) colMask))
                 OR push_bit (ROWCOUNT * c) 1) XOR (a AND push_bit (ROWCOUNT * c) colMask)), 1)"
  unfolding updateState_def Let_def state_at_def by simp

lemma updateState_inv:
  assumes inv: "board_inv hs s" and c: "c < 7" and nf: "\<not> isColumnFull s c"
  shows "\<exists>s'. updateState s c = Some s' \<and> board_inv (hs(c := Suc (hs c))) s'"
proof -
  obtain a b t where s: "s = (a, b, t)" by (cases s) auto
  have h: "hs c < 6" using not_full_height[OF inv c nf] .
  have disj: "\<forall>n. \<not> (bit a n \<and> bit b n)" using board_inv_disj[OF inv] by (simp add: s)
  have occ: "\<forall>n. (bit a n \<or> bit b n) = (n < 42 \<and> n mod 6 < hs (n div 6))"
    using board_inv_occ[OF inv] by (simp add: s)
  have disj': "\<forall>n. \<not> (bit b n \<and> bit a n)" using disj by blast
  have occ': "\<forall>n. (bit b n \<or> bit a n) = (n < 42 \<and> n mod 6 < hs (n div 6))"
    using occ by (simp add: disj_commute)
  have hs': "\<forall>k. (hs(c := Suc (hs c))) k \<le> 6"
    using board_inv_height[OF inv] h by (simp add: Suc_leI)
  from board_inv_turn[OF inv] have "t = 1 \<or> t = 2" by (simp add: s)
  then show ?thesis
  proof
    assume t: "t = 1"
    have u: "updateState s c = Some (a OR push_bit (6 * c + hs c) 1, b, 2)"
      by (simp only: s t updateState_turn1 new_piece_bits[OF disj occ c h])
    have "board_inv (hs(c := Suc (hs c))) (a OR push_bit (6 * c + hs c) 1, b, 2)"
      unfolding board_inv_def using place_inv[OF disj occ c h] hs' by simp
    with u show ?thesis by blast
  next
    assume t: "t = 2"
    have u: "updateState s c = Some (a, b OR push_bit (6 * c + hs c) 1, 1)"
      by (simp only: s t updateState_turn2 new_piece_bits[OF disj' occ' c h])
    have d2: "\<forall>n. \<not> (bit a n \<and> bit (b OR push_bit (6 * c + hs c) 1) n)"
      using place_inv(1)[OF disj' occ' c h] by blast
    have o2: "\<forall>n. (bit a n \<or> bit (b OR push_bit (6 * c + hs c) 1) n)
             = (n < 42 \<and> n mod 6 < (hs(c := Suc (hs c))) (n div 6))"
      using place_inv(2)[OF disj' occ' c h] by (simp add: disj_commute)
    have "board_inv (hs(c := Suc (hs c))) (a, b OR push_bit (6 * c + hs c) 1, 1)"
      unfolding board_inv_def using d2 o2 hs' by simp
    with u show ?thesis by blast
  qed
qed


lemma board_inv_start: "board_inv (\<lambda>c. 0) start"
  by (simp add: board_inv_def start_def)

lemma reachable_board_inv: "reachable s \<Longrightarrow> \<exists>hs. board_inv hs s"
proof (induction rule: reachable.induct)
  case reachable_start
  show ?case using board_inv_start by blast
next
  case (reachable_move s col s')
  then obtain hs where hs: "board_inv hs s" by blast
  from reachable_move.hyps(2) have c: "col < 7" and nf: "\<not> isColumnFull s col"
    by (simp_all add: isLegalMove_def COLUMNCOUNT_def)
  from updateState_inv[OF hs c nf] reachable_move.hyps(3) show ?case by auto
qed

lemma board_inv_masks:
  assumes inv: "board_inv hs s"
  shows "fst s AND fst (snd s) = 0"
    and "(fst s OR fst (snd s)) AND boardMask = fst s OR fst (snd s)"
    and "card {n. bit (fst s OR fst (snd s)) n} \<le> ROWCOUNT * COLUMNCOUNT"
proof -
  note disj = board_inv_disj[OF inv] and occ = board_inv_occ[OF inv]
  show "fst s AND fst (snd s) = 0"
    by (rule bit_eqI) (use disj in \<open>simp add: bit_and_iff\<close>)
  have sub: "bit (fst s OR fst (snd s)) n \<Longrightarrow> n < 42" for n
    using occ by (simp add: bit_or_iff)
  show "(fst s OR fst (snd s)) AND boardMask = fst s OR fst (snd s)"
  proof (rule bit_eqI)
    fix n
    show "bit ((fst s OR fst (snd s)) AND boardMask) n = bit (fst s OR fst (snd s)) n"
      using sub[of n] by (auto simp add: bit_and_iff boardMask_bit)
  qed
  have "{n. bit (fst s OR fst (snd s)) n} \<subseteq> {..<42}" using sub by auto
  then have "card {n. bit (fst s OR fst (snd s)) n} \<le> card {..<42::nat}"
    by (intro card_mono) simp_all
  then show "card {n. bit (fst s OR fst (snd s)) n} \<le> ROWCOUNT * COLUMNCOUNT"
    by (simp add: ROWCOUNT_def COLUMNCOUNT_def)
qed

text \<open>
  C8. For every state reachable from \<open>start()\<close> by legal moves and every column of the
  board that is not full in it, \<open>updateState\<close> returns a state whose two masks are
  disjoint (\<open>maskA & maskB == 0\<close>) and whose occupied bits all lie inside the board mask,
  so that at most \<open>ROWCOUNT * COLUMNCOUNT\<close> squares are occupied.
\<close>

theorem updateState_keeps_masks:
  assumes "reachable s" and "col < COLUMNCOUNT" and "\<not> isColumnFull s col"
  shows "\<exists>s'. updateState s col = Some s'
           \<and> fst s' AND fst (snd s') = 0
           \<and> (fst s' OR fst (snd s')) AND boardMask = fst s' OR fst (snd s')
           \<and> card {n. bit (fst s' OR fst (snd s')) n} \<le> ROWCOUNT * COLUMNCOUNT"
proof -
  from reachable_board_inv[OF assms(1)] obtain hs where hs: "board_inv hs s" by blast
  from assms(2) have c: "col < 7" by (simp add: COLUMNCOUNT_def)
  from updateState_inv[OF hs c assms(3)] obtain s' where
    u: "updateState s col = Some s'" and inv': "board_inv (hs(col := Suc (hs col))) s'" by blast
  from u board_inv_masks[OF inv'] show ?thesis by blast
qed

theorem updateState_keeps_masks_witness:
  "reachable (262144, 0, 2) \<and> 3 < COLUMNCOUNT \<and> \<not> isColumnFull (262144, 0, 2) 3
   \<and> (\<exists>s'. updateState (262144, 0, 2) 3 = Some s'
           \<and> fst s' AND fst (snd s') = 0
           \<and> (fst s' OR fst (snd s')) AND boardMask = fst s' OR fst (snd s')
           \<and> card {n. bit (fst s' OR fst (snd s')) n} \<le> ROWCOUNT * COLUMNCOUNT)"
proof -
  have l: "isLegalMove start 3" by code_simp
  have u: "updateState start 3 = Some (262144, 0, 2)" by code_simp
  have r: "reachable (262144, 0, 2)"
    by (rule reachable_move[OF reachable_start l u])
  have c: "3 < COLUMNCOUNT" by (simp add: COLUMNCOUNT_def)
  have nf: "\<not> isColumnFull (262144, 0, 2) 3" by code_simp
  from updateState_keeps_masks[OF r c nf] r c nf show ?thesis by blast
qed

text \<open>
  C4, as the code behaves. \<open>updateState\<close> flips the turn on every call, so four
  consecutive calls with column 3 stack the pieces of players 1, 2, 1, 2 and
  \<open>hasWinner\<close> reports 0 after them.
\<close>

theorem scenario_A_four_drops_counterexample:
  "drops start [3, 3, 3, 3] \<bind> hasWinner \<noteq> Some 1"
proof -
  have "drops start [3, 3, 3, 3] \<bind> hasWinner = Some 0" by code_simp
  then show ?thesis by simp
qed

text \<open>
  C4, amended. When the four drops of player 1 into column 3 alternate with three
  drops of player 2 into any one other column \<open>c\<close> of the board, \<open>hasWinner\<close> reports
  player 1 immediately after the fourth drop of player 1 (the seventh move), and 0
  after each of the moves before it.
\<close>

theorem scenario_A_interleaved:
  assumes "c < COLUMNCOUNT" and "c \<noteq> 3"
  shows "drops start [3, c, 3, c, 3, c, 3] \<bind> hasWinner = Some 1
         \<and> list_all (\<lambda>k. drops start (take k [3, c, 3, c, 3, c, 3]) \<bind> hasWinner = Some 0) [0..<7]"
proof -
  from assms have "c = 0 \<or> c = 1 \<or> c = 2 \<or> c = 4 \<or> c = 5 \<or> c = 6"
    unfolding COLUMNCOUNT_def by linarith
  moreover have "drops start [3, 0, 3, 0, 3, 0, 3] \<bind> hasWinner = Some 1
         \<and> list_all (\<lambda>k. drops start (take k [3, 0, 3, 0, 3, 0, 3]) \<bind> hasWinner = Some 0) [0..<7]"
    by code_simp
  moreover have "drops start [3, 1, 3, 1, 3, 1, 3] \<bind> hasWinner = Some 1
         \<and> list_all (\<lambda>k. drops start (take k [3, 1, 3, 1, 3, 1, 3]) \<bind> hasWinner = Some 0) [0..<7]"
    by code_simp
  moreover have "drops start [3, 2, 3, 2, 3, 2, 3] \<bind> hasWinner = Some 1
         \<and> list_all (\<lambda>k. drops start (take k [3, 2, 3, 2, 3, 2, 3]) \<bind> hasWinner = Some 0) [0..<7]"
    by code_simp
  moreover have "drops start [3, 4, 3, 4, 3, 4, 3] \<bind> hasWinner = Some 1
         \<and> list_all (\<lambda>k. drops start (take k [3, 4, 3, 4, 3, 4, 3]) \<bind> hasWinner = Some 0) [0..<7]"
    by code_simp
  moreover have "drops start [3, 5, 3, 5, 3, 5, 3] \<bind> hasWinner = Some 1
         \<and> list_all (\<lambda>k. drops start (take k [3, 5, 3, 5, 3, 5, 3]) \<bind> hasWinner = Some 0) [0..<7]"
    by code_simp
  moreover have "drops start [3, 6, 3, 6, 3, 6, 3] \<bind> hasWinner = Some 1
         \<and> list_all (\<lambda>k. drops start (take k [3, 6, 3, 6, 3, 6, 3]) \<bind> hasWinner = Some 0) [0..<7]"
    by code_simp
  ultimately show ?thesis by blast
qed

theorem scenario_A_interleaved_witness:
  "4 < COLUMNCOUNT \<and> (4::nat) \<noteq> 3
   \<and> drops start [3, 4, 3, 4, 3, 4, 3] \<bind> hasWinner = Some 1
   \<and> list_all (\<lambda>k. drops start (take k [3, 4, 3, 4, 3, 4, 3]) \<bind> hasWinner = Some 0) [0..<7]"
proof -
  have c: "4 < COLUMNCOUNT" by (simp add: COLUMNCOUNT_def)
  have n: "(4::nat) \<noteq> 3" by simp
  from scenario_A_interleaved[OF c n] c n show ?thesis by blast
qed


section \<open>The Monte-Carlo engine: proofs\<close>

text \<open>
  C7. For every root state with exactly one legal move, \<open>getNextMoves\<close> returns that
  move and the engine, with its \<open>plays\<close> and \<open>wins\<close> dictionaries, is unchanged, whatever
  simulations the time budget would admit; with no legal move it returns \<open>False\<close>,
  again without touching the engine.
\<close>

theorem getNextMoves_forced:
  assumes "states a \<noteq> []"
  shows "(getLegalMoves (last (states a)) = [m] \<longrightarrow> getNextMoves rnds a = Some (Column m, a))
         \<and> (getLegalMoves (last (states a)) = [] \<longrightarrow> getNextMoves rnds a = Some (NoLegalMove, a))"
  using assms by (simp add: getNextMoves_def Let_def)

theorem getNextMoves_forced_witness:
  "(getLegalMoves (22906492245, 45812984490, 1) = [6]
      \<and> getNextMoves [\<lambda>d. d]
           \<lparr>states = [start, (22906492245, 45812984490, 1)], plays = Map.empty, wins = Map.empty,
            maxDepth = 50, constant_C = sqrt 2\<rparr>
         = Some (Column 6,
           \<lparr>states = [start, (22906492245, 45812984490, 1)], plays = Map.empty, wins = Map.empty,
            maxDepth = 50, constant_C = sqrt 2\<rparr>))
   \<and> (getLegalMoves (1466015503701, 2932031007402, 1) = []
      \<and> getNextMoves [\<lambda>d. d]
           \<lparr>states = [(1466015503701, 2932031007402, 1)], plays = Map.empty, wins = Map.empty,
            maxDepth = 50, constant_C = sqrt 2\<rparr>
         = Some (NoLegalMove,
           \<lparr>states = [(1466015503701, 2932031007402, 1)], plays = Map.empty, wins = Map.empty,
            maxDepth = 50, constant_C = sqrt 2\<rparr>))"
proof -
  have l1: "getLegalMoves (22906492245, 45812984490, 1) = [6]" by code_simp
  have l0: "getLegalMoves (1466015503701, 2932031007402, 1) = []" by code_simp
  have n1: "states \<lparr>states = [start, (22906492245, 45812984490, 1)], plays = Map.empty,
              wins = Map.empty, maxDepth = 50, constant_C = sqrt 2\<rparr> \<noteq> []" by simp
  have n0: "states \<lparr>states = [(1466015503701, 2932031007402, 1)], plays = Map.empty,
              wins = Map.empty, maxDepth = 50, constant_C = sqrt 2\<rparr> \<noteq> []" by simp
  show ?thesis
    using getNextMoves_forced[OF n1, of 6 "[\<lambda>d. d]"] getNextMoves_forced[OF n0, of 6 "[\<lambda>d. d]"] l1 l0
    by simp
qed

text \<open>The two states of the witness arise from \<open>start()\<close> by filling columns.\<close>

lemma drops_ex1: "drops start (replicate 6 0 @ replicate 6 1 @ replicate 6 2 @ replicate 6 3 @ replicate 6 4 @ replicate 6 5) = Some (22906492245, 45812984490, 1)"
  by code_simp

lemma drops_ex0: "drops start (replicate 6 0 @ replicate 6 1 @ replicate 6 2 @ replicate 6 3 @ replicate 6 4 @ replicate 6 5 @ replicate 6 6) = Some (1466015503701, 2932031007402, 1)"
  by code_simp

lemma selectMove_step:
  assumes "ratesDefined a s (m # ms)"
  shows "selectMove a s (m # ms) nm h =
           (if childRate a s m > h then selectMove a s ms (Column m) (childRate a s m)
            else selectMove a s ms nm h)"
proof -
  from assms obtain ns where ns: "updateState s m = Some ns" and p: "plays a ns \<noteq> Some 0"
    by (auto simp add: ratesDefined_def split: option.splits)
  have nz: "(case plays a ns of None \<Rightarrow> 1 | Some n \<Rightarrow> n) \<noteq> 0"
    using p by (cases "plays a ns") auto
  show ?thesis
    using nz by (simp add: ns childRate_def Let_def)
qed

lemma selectMove_best:
  assumes "ratesDefined a s ms"
  shows "(list_all (\<lambda>x. childRate a s x \<le> h) ms \<and> selectMove a s ms nm h = Some nm)
         \<or> (\<exists>pre m post. ms = pre @ m # post \<and> selectMove a s ms nm h = Some (Column m)
               \<and> h < childRate a s m
               \<and> list_all (\<lambda>x. childRate a s x < childRate a s m) pre
               \<and> list_all (\<lambda>x. childRate a s x \<le> childRate a s m) post)"
  using assms
proof (induction ms arbitrary: nm h)
  case Nil
  then show ?case by simp
next
  case (Cons m ms)
  from Cons.prems have rd: "ratesDefined a s ms" by (simp add: ratesDefined_def)
  note step = selectMove_step[OF Cons.prems]
  show ?case
  proof (cases "childRate a s m > h")
    case True
    from Cons.IH[OF rd, of "childRate a s m" "Column m"]
    consider (keep) "list_all (\<lambda>x. childRate a s x \<le> childRate a s m) ms"
        "selectMove a s ms (Column m) (childRate a s m) = Some (Column m)"
      | (later) pre m' post where "ms = pre @ m' # post"
        "selectMove a s ms (Column m) (childRate a s m) = Some (Column m')"
        "childRate a s m < childRate a s m'"
        "list_all (\<lambda>x. childRate a s x < childRate a s m') pre"
        "list_all (\<lambda>x. childRate a s x \<le> childRate a s m') post"
      by blast
    then show ?thesis
    proof cases
      case keep
      have "m # ms = [] @ m # ms \<and> selectMove a s (m # ms) nm h = Some (Column m)
            \<and> h < childRate a s m \<and> list_all (\<lambda>x. childRate a s x < childRate a s m) []
            \<and> list_all (\<lambda>x. childRate a s x \<le> childRate a s m) ms"
        using keep True step by simp
      then show ?thesis by blast
    next
      case later
      have "m # ms = (m # pre) @ m' # post \<and> selectMove a s (m # ms) nm h = Some (Column m')
            \<and> h < childRate a s m' \<and> list_all (\<lambda>x. childRate a s x < childRate a s m') (m # pre)
            \<and> list_all (\<lambda>x. childRate a s x \<le> childRate a s m') post"
        using later True step by simp
      then show ?thesis by blast
    qed
  next
    case False
    from Cons.IH[OF rd, of h nm]
    consider (none) "list_all (\<lambda>x. childRate a s x \<le> h) ms" "selectMove a s ms nm h = Some nm"
      | (later) pre m' post where "ms = pre @ m' # post"
        "selectMove a s ms nm h = Some (Column m')"
        "h < childRate a s m'"
        "list_all (\<lambda>x. childRate a s x < childRate a s m') pre"
        "list_all (\<lambda>x. childRate a s x \<le> childRate a s m') post"
      by blast
    then show ?thesis
    proof cases
      case none
      then show ?thesis using False step by simp
    next
      case later
      have "m # ms = (m # pre) @ m' # post \<and> selectMove a s (m # ms) nm h = Some (Column m')
            \<and> h < childRate a s m' \<and> list_all (\<lambda>x. childRate a s x < childRate a s m') (m # pre)
            \<and> list_all (\<lambda>x. childRate a s x \<le> childRate a s m') post"
        using later False step by simp
      then show ?thesis by blast
    qed
  qed
qed


text \<open>
  With at least two legal moves, and a store in which the rate of every child is
  defined, \<open>getNextMoves\<close> returns the earliest legal move of the highest win rate
  when that rate is positive, and \<open>None\<close> when no rate is.
\<close>

lemma getNextMoves_selects:
  assumes "states a \<noteq> []" and "2 \<le> length (getLegalMoves (last (states a)))"
    and "runSimulations rnds a = Some a'"
    and "ratesDefined a' (last (states a)) (getLegalMoves (last (states a)))"
  shows "(list_all (\<lambda>x. childRate a' (last (states a)) x \<le> 0) (getLegalMoves (last (states a)))
            \<and> getNextMoves rnds a = Some (NoneMove, a'))
         \<or> (\<exists>pre m post. getLegalMoves (last (states a)) = pre @ m # post
               \<and> getNextMoves rnds a = Some (Column m, a')
               \<and> 0 < childRate a' (last (states a)) m
               \<and> list_all (\<lambda>x. childRate a' (last (states a)) x < childRate a' (last (states a)) m) pre
               \<and> list_all (\<lambda>x. childRate a' (last (states a)) x \<le> childRate a' (last (states a)) m) post)"
proof -
  have ne: "getLegalMoves (last (states a)) \<noteq> []" using assms(2) by auto
  have n1: "length (getLegalMoves (last (states a))) \<noteq> Suc 0" using assms(2) by simp
  have g: "getNextMoves rnds a =
             map_option (\<lambda>nextMove. (nextMove, a'))
               (selectMove a' (last (states a)) (getLegalMoves (last (states a))) NoneMove 0)"
    using assms(1,3) ne n1
    by (cases "selectMove a' (last (states a)) (getLegalMoves (last (states a))) NoneMove 0")
       (simp_all add: getNextMoves_def Let_def)
  from selectMove_best[OF assms(4), of 0 NoneMove] show ?thesis
    unfolding g by (elim disjE exE conjE) (simp, simp, blast)
qed

text \<open>
  C6, the failing input. The root is \<open>start()\<close>, with seven legal moves; the store
  holds the child of column 3 with one play and no win (one simulation, lost). Every
  win rate is 0, no rate exceeds the initial \<open>highestWinRate = 0\<close>, and \<open>getNextMoves\<close>
  returns \<open>None\<close> instead of a legal move.
\<close>

theorem getNextMoves_returns_None:
  "getLegalMoves start = [0, 1, 2, 3, 4, 5, 6]
   \<and> updateState start 3 = Some (262144, 0, 2)
   \<and> getNextMoves []
        \<lparr>states = [start], plays = [(262144, 0, 2) \<mapsto> 1], wins = [(262144, 0, 2) \<mapsto> 0],
         maxDepth = 50, constant_C = sqrt 2\<rparr>
      = Some (NoneMove,
        \<lparr>states = [start], plays = [(262144, 0, 2) \<mapsto> 1], wins = [(262144, 0, 2) \<mapsto> 0],
         maxDepth = 50, constant_C = sqrt 2\<rparr>)"
proof -
  have l: "getLegalMoves start = [0, 1, 2, 3, 4, 5, 6]" by code_simp
  have u: "updateState start 0 = Some (1, 0, 2)" "updateState start 1 = Some (64, 0, 2)"
    "updateState start 2 = Some (4096, 0, 2)" "updateState start 3 = Some (262144, 0, 2)"
    "updateState start 4 = Some (16777216, 0, 2)" "updateState start 5 = Some (1073741824, 0, 2)"
    "updateState start 6 = Some (68719476736, 0, 2)"
    by code_simp+
  have u1: "updateState start (Suc 0) = Some (64, 0, 2)" by code_simp
  show ?thesis by (simp add: getNextMoves_def l u u1)
qed

text \<open>
  One iteration of the descent whose children are not all stored: the draw picks the
  child at the drawn index of the list of all children, and \<open>hasWinner\<close> returns for it.
\<close>

lemma those_map_length: "those (map f xs) = Some ys \<Longrightarrow> length ys = length xs"
  by (induction xs arbitrary: ys) (auto split: option.splits)

lemma those_map_member:
  "those (map f xs) = Some ys \<Longrightarrow> y \<in> set ys \<Longrightarrow> \<exists>x \<in> set xs. f x = Some y"
  by (induction xs arbitrary: ys) (auto split: option.splits)

lemma state_at_Some: "state_at s i \<noteq> None \<longleftrightarrow> i \<in> {- 3, - 2, - 1, 0, 1, 2}"
  by (auto simp add: state_at_def)

lemma updateState_hasWinner:
  assumes "updateState s c = Some s'"
  shows "\<exists>w. hasWinner s' = Some w"
proof -
  from assms have i: "state_at s (snd (snd s) - 1) \<noteq> None" and t: "snd (snd s') = 3 - snd (snd s)"
    by (auto simp add: updateState_def Let_def split: Option.bind_splits if_splits)
  from i have "snd (snd s) - 1 \<in> {- 3, - 2, - 1, 0, 1, 2}" by (simp only: state_at_Some)
  then have "2 - snd (snd s') \<in> {- 3, - 2, - 1, 0, 1, 2}" unfolding t by auto
  then have "state_at s' (2 - snd (snd s')) \<noteq> None" by (simp only: state_at_Some)
  then show ?thesis by (auto simp add: hasWinner_def)
qed

lemma selectChild_random:
  assumes "\<not> list_all (\<lambda>pos. plays a pos \<noteq> None) cs"
  shows "cs \<noteq> []" and "selectChild a r cs = Some (cs ! (r mod length cs))"
proof -
  from assms show ne: "cs \<noteq> []" by auto
  show "selectChild a r cs = Some (cs ! (r mod length cs))"
    using assms ne by (simp add: selectChild_def choice_def)
qed

lemma descent_one_iteration:
  assumes cs: "those (map (updateState (current sm)) (getLegalMoves (current sm))) = Some cs"
    and notall: "\<not> list_all (\<lambda>pos. plays (engine sm) pos \<noteq> None) cs"
  shows "\<exists>sm'. descent rnd [d] sm = Some sm' \<and> current sm' = cs ! (rnd d mod length cs)"
proof -
  note ne = selectChild_random(1)[OF notall] and sel = selectChild_random(2)[OF notall]
  have legal: "length (getLegalMoves (current sm)) \<noteq> 0"
    using those_map_length[OF cs] ne by auto
  let ?c = "cs ! (rnd d mod length cs)"
  have "?c \<in> set cs" using ne by simp
  from those_map_member[OF cs this] obtain col where "updateState (current sm) col = Some ?c"
    by blast
  from updateState_hasWinner[OF this] obtain w where w: "hasWinner ?c = Some w" by blast
  show ?thesis
    using legal by (simp add: cs sel w Let_def del: those.simps)
qed


text \<open>
  C5, as the code behaves. The root is \<open>start()\<close> and the store holds only the child of
  column 1, so not all children are stored (the child of column 0 is not). In the
  first iteration of the descent the draw 1 makes \<open>choice(nextStates)\<close> return the child
  of column 1, which is already in the store.
\<close>

theorem descent_draws_stored_counterexample:
  "getLegalMoves start = [0, 1, 2, 3, 4, 5, 6]
   \<and> updateState start 0 = Some (1, 0, 2)
   \<and> updateState start 1 = Some (64, 0, 2)
   \<and> plays \<lparr>states = [start], plays = [(64, 0, 2) \<mapsto> 1], wins = [(64, 0, 2) \<mapsto> 0],
              maxDepth = 50, constant_C = sqrt 2\<rparr> (1, 0, 2) = None
   \<and> plays \<lparr>states = [start], plays = [(64, 0, 2) \<mapsto> 1], wins = [(64, 0, 2) \<mapsto> 0],
              maxDepth = 50, constant_C = sqrt 2\<rparr> (64, 0, 2) = Some 1
   \<and> map_option current
         (descent Suc [0]
            \<lparr>engine = \<lparr>states = [start], plays = [(64, 0, 2) \<mapsto> 1], wins = [(64, 0, 2) \<mapsto> 0],
                        maxDepth = 50, constant_C = sqrt 2\<rparr>,
             current = start, visitedState = [], expand = True, draw = False, win = 0\<rparr>)
       = Some (64, 0, 2)"
proof -
  have l: "getLegalMoves start = [0, 1, 2, 3, 4, 5, 6]" by code_simp
  have u0: "updateState start 0 = Some (1, 0, 2)" and u1: "updateState start 1 = Some (64, 0, 2)"
    by code_simp+
  let ?sm = "\<lparr>engine = \<lparr>states = [start], plays = [(64, 0, 2) \<mapsto> 1], wins = [(64, 0, 2) \<mapsto> 0],
                    maxDepth = 50, constant_C = sqrt 2\<rparr>,
         current = start, visitedState = [], expand = True, draw = False, win = 0\<rparr>"
  let ?cs = "[(1, 0, 2), (64, 0, 2), (4096, 0, 2), (262144, 0, 2), (16777216, 0, 2),
             (1073741824, 0, 2), (68719476736, 0, 2)] :: state list"
  have c0: "those (map (updateState start) (getLegalMoves start)) = Some ?cs" by code_simp
  have c: "those (map (updateState (current ?sm)) (getLegalMoves (current ?sm))) = Some ?cs"
    using c0 by simp
  have n: "\<not> list_all (\<lambda>pos. plays (engine ?sm) pos \<noteq> None) ?cs" by simp
  have i: "?cs ! (Suc 0 mod length ?cs) = (64, 0, 2)" by simp
  from descent_one_iteration[OF c n, of Suc 0] obtain sm' where
    "descent Suc [0] ?sm = Some sm'" "current sm' = ?cs ! (Suc 0 mod length ?cs)" by blast
  then have d: "map_option current (descent Suc [0] ?sm) = Some (64, 0, 2)"
    using i by simp
  show ?thesis using l u0 u1 d by simp
qed

text \<open>
  C5, amended. In an iteration of the descent of \<open>runSimulation\<close> where not all child
  states of the current state are keys of \<open>plays\<close>, the iteration moves to the child
  that \<open>choice(nextStates)\<close> draws from the list of all children: the child at the drawn
  index, stored or not; and every child of the list is reached for some draw. The
  loop then stops at that child when it has a winner and goes on from it otherwise.
\<close>

theorem descent_random_step:
  assumes "those (map (updateState (current sm)) (getLegalMoves (current sm))) = Some cs"
    and "\<not> list_all (\<lambda>pos. plays (engine sm) pos \<noteq> None) cs"
  shows "(\<exists>sm'. descent rnd [d] sm = Some sm'
            \<and> current sm' = cs ! (rnd d mod length cs) \<and> current sm' \<in> set cs
            \<and> descent rnd (d # ds) sm = (if win sm' \<noteq> 0 then Some sm' else descent rnd ds sm'))
         \<and> (\<forall>c \<in> set cs. \<exists>rnd' sm'. descent rnd' [d] sm = Some sm' \<and> current sm' = c)"
proof -
  note ne = selectChild_random(1)[OF assms(2)] and sel = selectChild_random(2)[OF assms(2)]
  have legal: "length (getLegalMoves (current sm)) \<noteq> 0"
    using those_map_length[OF assms(1)] ne by auto
  let ?c = "cs ! (rnd d mod length cs)"
  have mem: "?c \<in> set cs" using ne by simp
  from those_map_member[OF assms(1) mem] obtain col where "updateState (current sm) col = Some ?c"
    by blast
  from updateState_hasWinner[OF this] obtain w where w: "hasWinner ?c = Some w" by blast
  have first: "\<exists>sm'. descent rnd [d] sm = Some sm'
            \<and> current sm' = ?c \<and> current sm' \<in> set cs
            \<and> descent rnd (d # ds) sm = (if win sm' \<noteq> 0 then Some sm' else descent rnd ds sm')"
    using legal mem by (simp add: assms(1) sel w Let_def del: those.simps)
  have every: "\<exists>rnd' sm'. descent rnd' [d] sm = Some sm' \<and> current sm' = c" if "c \<in> set cs" for c
  proof -
    from that obtain i where i: "i < length cs" "cs ! i = c" by (auto simp: in_set_conv_nth)
    from descent_one_iteration[OF assms, of "\<lambda>_. i" d] i
    show ?thesis by auto
  qed
  from first every show ?thesis by blast
qed

theorem descent_random_step_witness:
  "those (map (updateState (current
        \<lparr>engine = \<lparr>states = [start], plays = [(64, 0, 2) \<mapsto> 1], wins = [(64, 0, 2) \<mapsto> 0],
                    maxDepth = 50, constant_C = sqrt 2\<rparr>,
         current = start, visitedState = [], expand = True, draw = False, win = 0\<rparr>))
      (getLegalMoves (current
        \<lparr>engine = \<lparr>states = [start], plays = [(64, 0, 2) \<mapsto> 1], wins = [(64, 0, 2) \<mapsto> 0],
                    maxDepth = 50, constant_C = sqrt 2\<rparr>,
         current = start, visitedState = [], expand = True, draw = False, win = 0\<rparr>)))
     = Some [(1, 0, 2), (64, 0, 2), (4096, 0, 2), (262144, 0, 2), (16777216, 0, 2),
             (1073741824, 0, 2), (68719476736, 0, 2)]
   \<and> \<not> list_all (\<lambda>pos. plays (engine
        \<lparr>engine = \<lparr>states = [start], plays = [(64, 0, 2) \<mapsto> 1], wins = [(64, 0, 2) \<mapsto> 0],
                    maxDepth = 50, constant_C = sqrt 2\<rparr>,
         current = start, visitedState = [], expand = True, draw = False, win = 0\<rparr>) pos \<noteq> None)
        [(1, 0, 2), (64, 0, 2), (4096, 0, 2), (262144, 0, 2), (16777216, 0, 2),
         (1073741824, 0, 2), (68719476736, 0, 2)]
   \<and> (\<exists>sm'. descent Suc [0]
        \<lparr>engine = \<lparr>states = [start], plays = [(64, 0, 2) \<mapsto> 1], wins = [(64, 0, 2) \<mapsto> 0],
                    maxDepth = 50, constant_C = sqrt 2\<rparr>,
         current = start, visitedState = [], expand = True, draw = False, win = 0\<rparr> = Some sm'
         \<and> current sm' = (64, 0, 2))
   \<and> (\<exists>rnd' sm'. descent rnd' [0]
        \<lparr>engine = \<lparr>states = [start], plays = [(64, 0, 2) \<mapsto> 1], wins = [(64, 0, 2) \<mapsto> 0],
                    maxDepth = 50, constant_C = sqrt 2\<rparr>,
         current = start, visitedState = [], expand = True, draw = False, win = 0\<rparr> = Some sm'
         \<and> current sm' = (1, 0, 2))"
proof -
  let ?sm = "\<lparr>engine = \<lparr>states = [start], plays = [(64, 0, 2) \<mapsto> 1], wins = [(64, 0, 2) \<mapsto> 0],
                    maxDepth = 50, constant_C = sqrt 2\<rparr>,
         current = start, visitedState = [], expand = True, draw = False, win = 0\<rparr>"
  let ?cs = "[(1, 0, 2), (64, 0, 2), (4096, 0, 2), (262144, 0, 2), (16777216, 0, 2),
             (1073741824, 0, 2), (68719476736, 0, 2)] :: state list"
  have c0: "those (map (updateState start) (getLegalMoves start)) = Some ?cs" by code_simp
  have c: "those (map (updateState (current ?sm)) (getLegalMoves (current ?sm))) = Some ?cs"
    using c0 by simp
  have n: "\<not> list_all (\<lambda>pos. plays (engine ?sm) pos \<noteq> None) ?cs" by simp
  have i: "?cs ! (Suc 0 mod length ?cs) = (64, 0, 2)" by simp
  have m: "(1, 0, 2) \<in> set ?cs" by simp
  from descent_random_step[OF c n, of Suc 0 "[]"] i m c n show ?thesis by (simp del: those.simps) blast
qed


section \<open>The five-in-a-row board: proofs\<close>


lemma list_get_inside: "0 \<le> i \<Longrightarrow> i < int (length xs) \<Longrightarrow> list_get xs i = Some (xs ! nat i)"
  by (simp add: list_get_def)

lemma list_set_inside: "0 \<le> i \<Longrightarrow> i < int (length xs) \<Longrightarrow> list_set xs i v = Some (xs[nat i := v])"
  by (simp add: list_set_def)

lemma row_length:
  assumes "list_all (\<lambda>r. length r = n) m" and "0 \<le> r" and "r < int (length m)"
  shows "length (m ! nat r) = n"
proof -
  have "nat r < length m" using assms(2,3) by linarith
  then show ?thesis using assms(1) by (simp add: list_all_length)
qed

lemma getSquare_inside:
  assumes "length m = n" and "list_all (\<lambda>r. length r = n) m"
    and "0 \<le> r" and "r < int n" and "0 \<le> c" and "c < int n"
  shows "getSquare m r c = Some (m ! nat r ! nat c)"
proof -
  have l: "length (m ! nat r) = n" using row_length[OF assms(2,3)] assms(1,4) by simp
  show ?thesis
    using assms l by (simp add: getSquare_def list_get_inside)
qed

lemma setSquare_inside:
  assumes "length m = n" and "list_all (\<lambda>r. length r = n) m"
    and "0 \<le> r" and "r < int n" and "0 \<le> c" and "c < int n"
  shows "setSquare m r c v = Some (m[nat r := (m ! nat r)[nat c := v]])"
proof -
  have l: "length (m ! nat r) = n" using row_length[OF assms(2,3)] assms(1,4) by simp
  show ?thesis
    using assms l by (simp add: setSquare_def list_get_inside list_set_inside)
qed

lemma wf_board: "wf_grid g \<Longrightarrow> length (board g) = nat (size_g g) \<and> list_all (\<lambda>r. length r = nat (size_g g)) (board g)"
  unfolding wf_grid_def by blast

lemma wf_table: "wf_grid g \<Longrightarrow> length (squareValue g) = nat (size_g g) \<and> list_all (\<lambda>r. length r = nat (size_g g)) (squareValue g)"
  unfolding wf_grid_def by blast

lemma board_get:
  assumes "wf_grid g" and "0 \<le> r" and "r < size_g g" and "0 \<le> c" and "c < size_g g"
  shows "getSquare (board g) r c = Some (board g ! nat r ! nat c)"
  using wf_board[OF assms(1)] assms(2-5) by (intro getSquare_inside[where n = "nat (size_g g)"]) simp_all

lemma board_set:
  assumes "wf_grid g" and "0 \<le> r" and "r < size_g g" and "0 \<le> c" and "c < size_g g"
  shows "setSquare (board g) r c v = Some ((board g)[nat r := (board g ! nat r)[nat c := v]])"
  using wf_board[OF assms(1)] assms(2-5) by (intro setSquare_inside[where n = "nat (size_g g)"]) simp_all

lemma table_get:
  assumes "wf_grid g" and "0 \<le> r" and "r < size_g g" and "0 \<le> c" and "c < size_g g"
  shows "getSquare (squareValue g) r c = Some (squareValue g ! nat r ! nat c)"
  using wf_table[OF assms(1)] assms(2-5) by (intro getSquare_inside[where n = "nat (size_g g)"]) simp_all

lemma xor_twice: "(h XOR v) XOR v = (h::int)"
  by (simp add: xor.assoc)

lemma update_square_back:
  assumes "nat r < length m" and "m ! nat r ! nat c = old"
  shows "(m[nat r := (m ! nat r)[nat c := v]])[nat r := (m[nat r := (m ! nat r)[nat c := v]] ! nat r)[nat c := old]] = m"
proof -
  have "(m ! nat r)[nat c := old] = m ! nat r"
    unfolding assms(2)[symmetric] by simp
  then show ?thesis using assms(1) by simp
qed

lemma placePiece_inside:
  assumes "wf_grid g" and "0 \<le> r" and "r < size_g g" and "0 \<le> c" and "c < size_g g"
  shows "placePiece g r c p =
           Some (g\<lparr>board := (board g)[nat r := (board g ! nat r)[nat c := Some p]],
                   undoStack := undoStack g @ [(r, c, p)],
                   hashKey := hashKey g XOR pieceValue (squareValue g ! nat r ! nat c) p\<rparr>)"
  by (simp add: placePiece_def board_set[OF assms] table_get[OF assms])

lemma wf_placed:
  assumes "wf_grid g"
  shows "wf_grid (g\<lparr>board := (board g)[nat r := (board g ! nat r)[nat c := v]], undoStack := st, hashKey := h\<rparr>)"
proof -
  have "list_all (\<lambda>x. length x = nat (size_g g)) ((board g)[nat r := (board g ! nat r)[nat c := v]])"
  proof (cases "nat r < length (board g)")
    case True
    then show ?thesis using wf_board[OF assms] by (auto simp add: list_all_length nth_list_update)
  next
    case False
    then have "(board g)[nat r := (board g ! nat r)[nat c := v]] = board g"
      by (simp add: list_update_beyond)
    then show ?thesis using wf_board[OF assms] by simp
  qed
  then show ?thesis using assms by (simp add: wf_grid_def)
qed

text \<open>
  C2. For every grid of the shape built by the constructor, every empty square
  \<open>(r, c)\<close> inside the board and every piece \<open>p\<close>, \<open>placePiece(r, c, p)\<close> followed by
  \<open>undoMove()\<close> gives back the grid it started from: the hash key has its value from
  before the placement, the square is empty again, and the undo stack has its prior
  contents.
\<close>

theorem placePiece_undoMove_roundtrip:
  assumes "wf_grid g" and "0 \<le> r" and "r < size_g g" and "0 \<le> c" and "c < size_g g"
    and "getSquare (board g) r c = Some None"
  shows "\<exists>g' g''. placePiece g r c p = Some g' \<and> undoMove g' = Some g''
           \<and> hashKey g'' = hashKey g
           \<and> getSquare (board g'') r c = Some None
           \<and> undoStack g'' = undoStack g
           \<and> g'' = g"
proof -
  let ?g' = "g\<lparr>board := (board g)[nat r := (board g ! nat r)[nat c := Some p]],
                undoStack := undoStack g @ [(r, c, p)],
                hashKey := hashKey g XOR pieceValue (squareValue g ! nat r ! nat c) p\<rparr>"
  have p: "placePiece g r c p = Some ?g'" by (rule placePiece_inside[OF assms(1-5)])
  have wf': "wf_grid ?g'" by (rule wf_placed[OF assms(1)])
  have sz: "size_g ?g' = size_g g" by simp
  have empty: "board g ! nat r ! nat c = None"
    using assms(6) board_get[OF assms(1-5)] by simp
  have inr: "nat r < length (board g)" using wf_board[OF assms(1)] assms(2,3) by simp
  have bs: "setSquare (board ?g') r c None = Some (board g)"
    using board_set[OF wf', of r c None] assms(2-5) update_square_back[OF inr empty, of "Some p"]
    by simp
  have tg: "getSquare (squareValue ?g') r c = Some (squareValue g ! nat r ! nat c)"
    using table_get[OF wf', of r c] assms(2-5) by simp
  have u: "undoMove ?g' = Some g"
    unfolding undoMove_def using bs tg by (simp add: xor_twice)
  show ?thesis using p u assms(6) by simp
qed


text \<open>The constructor builds a grid of this shape, and \<open>placePiece\<close> keeps it.\<close>

lemma wf_ConnectFiveBoard:
  assumes "0 \<le> n" and "length table = nat n" and "list_all (\<lambda>r. length r = nat n) table"
  shows "wf_grid (ConnectFiveBoard n key table)"
  using assms by (simp add: wf_grid_def ConnectFiveBoard_def list_all_length)

lemma placePiece_wf: "wf_grid g \<Longrightarrow> placePiece g r c p = Some g' \<Longrightarrow> wf_grid g'"
  by (auto simp add: placePiece_def setSquare_def list_get_def list_set_def wf_grid_def Let_def
        list_all_length nth_list_update split: Option.bind_splits if_splits)

lemma wf_exampleBoard: "wf_grid exampleBoard"
  by code_simp

theorem placePiece_undoMove_roundtrip_witness:
  "wf_grid exampleBoard \<and> (0::int) \<le> 7 \<and> 7 < size_g exampleBoard
   \<and> getSquare (board exampleBoard) 7 7 = Some None
   \<and> (\<exists>g' g''. placePiece exampleBoard 7 7 ''X'' = Some g' \<and> undoMove g' = Some g''
           \<and> hashKey g'' = hashKey exampleBoard
           \<and> getSquare (board g'') 7 7 = Some None
           \<and> undoStack g'' = undoStack exampleBoard
           \<and> g'' = exampleBoard)"
proof -
  have a: "(0::int) \<le> 7" by simp
  have b: "7 < size_g exampleBoard" by code_simp
  have e: "getSquare (board exampleBoard) 7 7 = Some None" by code_simp
  from placePiece_undoMove_roundtrip[OF wf_exampleBoard a b a b e, of "''X''"] wf_exampleBoard a b e
  show ?thesis by blast
qed



text \<open>
  \<open>userUndoMove\<close> pops two moves and XORs their values out of the hash key, but it
  never writes to the board.
\<close>

lemma userUndoMove_keeps_board: "userUndoMove g = Some g' \<Longrightarrow> board g' = board g"
  by (auto simp add: userUndoMove_def Let_def split: if_splits prod.splits Option.bind_splits)

lemma userUndoMove_short: "length (undoStack g) < 2 \<Longrightarrow> userUndoMove g = Some g"
  by (simp add: userUndoMove_def)

text \<open>
  After two placements, \<open>userUndoMove\<close> restores the undo stack and the hash key of
  the grid before them, and leaves the board as the placements made it.
\<close>

lemma userUndoMove_after_two_moves:
  assumes "placePiece g r1 c1 p1 = Some g1" and "placePiece g1 r2 c2 p2 = Some g2"
  shows "\<exists>g3. userUndoMove g2 = Some g3 \<and> undoStack g3 = undoStack g
           \<and> hashKey g3 = hashKey g \<and> board g3 = board g2"
proof -
  from assms(1) obtain b1 v1 where
    v1: "getSquare (squareValue g) r1 c1 = Some v1"
    and g1: "g1 = g\<lparr>board := b1, undoStack := undoStack g @ [(r1, c1, p1)],
                     hashKey := hashKey g XOR pieceValue v1 p1\<rparr>"
    by (auto simp add: placePiece_def split: Option.bind_splits)
  from assms(2) obtain b2 v2 where
    v2: "getSquare (squareValue g1) r2 c2 = Some v2"
    and g2: "g2 = g1\<lparr>board := b2, undoStack := undoStack g1 @ [(r2, c2, p2)],
                     hashKey := hashKey g1 XOR pieceValue v2 p2\<rparr>"
    by (auto simp add: placePiece_def split: Option.bind_splits)
  have x: "((h XOR a) XOR b) XOR b XOR a = (h::int)" for h a b
    by (simp add: xor.assoc)
  have v2': "getSquare (squareValue g) r2 c2 = Some v2" using v2 g1 by simp
  show ?thesis
    unfolding userUndoMove_def g2 g1 using v1 v2' by (simp add: x xor.assoc butlast_append)
qed

text \<open>
  C1, the failing input. On the board of size 15, \<open>X\<close> is placed on (7, 7) and \<open>O\<close> on
  (7, 8), and \<open>userUndoMove()\<close> is called. The undo stack is empty again and the hash
  key has its value of the empty board, but the two squares still hold their pieces,
  so that \<open>userPlacePiece(7, 7, "X")\<close> refuses the move that the user wants to replay.
\<close>

theorem userUndoMove_leaves_pieces:
  "\<exists>g2 g3. placePieces exampleBoard [(7, 7, ''X''), (7, 8, ''O'')] = Some g2
     \<and> userUndoMove g2 = Some g3
     \<and> undoStack g3 = [] \<and> hashKey g3 = hashKey exampleBoard
     \<and> getSquare (board g3) 7 7 = Some (Some ''X'')
     \<and> getSquare (board g3) 7 8 = Some (Some ''O'')
     \<and> map_option fst (userPlacePiece g3 7 7 ''X'') = Some False"
proof -
  have "case placePieces exampleBoard [(7, 7, ''X''), (7, 8, ''O'')] of None \<Rightarrow> False
        | Some g2 \<Rightarrow>
          (case userUndoMove g2 of None \<Rightarrow> False
           | Some g3 \<Rightarrow> undoStack g3 = [] \<and> hashKey g3 = hashKey exampleBoard
               \<and> getSquare (board g3) 7 7 = Some (Some ''X'')
               \<and> getSquare (board g3) 7 8 = Some (Some ''O'')
               \<and> map_option fst (userPlacePiece g3 7 7 ''X'') = Some False)"
    by code_simp
  then show ?thesis by (auto split: option.splits)
qed

lemma findNextMove_no_shortcut:
  assumes "length (undoStack g) \<le> 8"
  shows "findNextMove search g turn \<noteq> Some (QuickWin v r c)"
proof (cases "isBoardEmpty g")
  case True
  then show ?thesis
    by (auto simp add: findNextMove_def Let_def split: Option.bind_splits)
next
  case False
  then show ?thesis using assms by (simp add: findNextMove_def selfHasFour_def)
qed


text \<open>
  C10. Whatever the board holds, \<open>selfHasFour\<close> returns \<open>False\<close> when the undo stack has
  at most eight moves and \<open>opponentHasFour\<close> returns \<open>False\<close> when it has at most six; so
  with at most eight moves on the stack \<open>findNextMove\<close> never returns through its
  open-four shortcut, and on a board that is not empty it returns the result of the
  search.
\<close>

theorem four_checks_need_moves:
  "(length (undoStack g) \<le> 8 \<longrightarrow> selfHasFour g = Some False)
   \<and> (length (undoStack g) \<le> 6 \<longrightarrow> opponentHasFour g = Some False)
   \<and> (length (undoStack g) \<le> 8 \<longrightarrow> findNextMove search g turn \<noteq> Some (QuickWin v r c))
   \<and> (length (undoStack g) \<le> 8 \<longrightarrow> \<not> isBoardEmpty g \<longrightarrow>
        findNextMove search g turn = Some (Searched (search g turn)))"
  using findNextMove_no_shortcut[of g search turn v r c]
  by (simp add: selfHasFour_def opponentHasFour_def findNextMove_def)

theorem four_checks_need_moves_witness:
  "\<exists>g. placePieces exampleBoard
          [(7, 3, ''X''), (0, 0, ''O''), (7, 4, ''X''), (0, 2, ''O''),
           (7, 5, ''X''), (0, 4, ''O''), (7, 6, ''X''), (0, 6, ''O'')] = Some g
     \<and> length (undoStack g) \<le> 8 \<and> \<not> isBoardEmpty g
     \<and> hasFourAt g (7, 6, ''X'') = Some True
     \<and> findQuickWin g = Some (Some (7, 2))
     \<and> selfHasFour g = Some False
     \<and> findNextMove (\<lambda>g turn. turn) g ''X'' = Some (Searched ''X'')"
proof -
  have "case placePieces exampleBoard
          [(7, 3, ''X''), (0, 0, ''O''), (7, 4, ''X''), (0, 2, ''O''),
           (7, 5, ''X''), (0, 4, ''O''), (7, 6, ''X''), (0, 6, ''O'')] of None \<Rightarrow> False
        | Some g \<Rightarrow> length (undoStack g) \<le> 8 \<and> \<not> isBoardEmpty g
            \<and> hasFourAt g (7, 6, ''X'') = Some True \<and> findQuickWin g = Some (Some (7, 2))"
    by code_simp
  then obtain g where g: "placePieces exampleBoard
          [(7, 3, ''X''), (0, 0, ''O''), (7, 4, ''X''), (0, 2, ''O''),
           (7, 5, ''X''), (0, 4, ''O''), (7, 6, ''X''), (0, 6, ''O'')] = Some g"
    "length (undoStack g) \<le> 8" "\<not> isBoardEmpty g" "hasFourAt g (7, 6, ''X'') = Some True"
    "findQuickWin g = Some (Some (7, 2))"
    by (auto split: option.splits)
  from four_checks_need_moves[of g "\<lambda>g turn. turn" "''X''"] g show ?thesis by blast
qed

text \<open>
  With one more pair of moves before them, the same four pieces are found: the stack
  then holds ten moves.
\<close>

lemma selfHasFour_after_ten_moves:
  "\<exists>g. placePieces exampleBoard
          [(14, 14, ''X''), (0, 0, ''O''), (7, 3, ''X''), (0, 2, ''O''), (7, 4, ''X''),
           (0, 4, ''O''), (7, 5, ''X''), (0, 6, ''O''), (7, 6, ''X''), (0, 8, ''O'')] = Some g
     \<and> selfHasFour g = Some True"
proof -
  have "case placePieces exampleBoard
          [(14, 14, ''X''), (0, 0, ''O''), (7, 3, ''X''), (0, 2, ''O''), (7, 4, ''X''),
           (0, 4, ''O''), (7, 5, ''X''), (0, 6, ''O''), (7, 6, ''X''), (0, 8, ''O'')] of
          None \<Rightarrow> False
        | Some g \<Rightarrow> selfHasFour g = Some True"
    by code_simp
  then show ?thesis by (auto split: option.splits)
qed


section \<open>The evaluation: proofs\<close>

declare runsScore.simps(3) [simp del]

lemma score_step:
  "(case combinationScore (int n, int b, turn = p) of None \<Rightarrow> tot
    | Some w \<Rightarrow> if p = ''X'' then tot + w else tot - w) = tot + contribution turn p n b"
  by (simp add: contribution_def split: option.splits)

lemma loop_same_piece:
  "heuristicLoop sequence turn ((index, Some p) # rest) (int n) tot (Some p)
     = heuristicLoop sequence turn rest (int (Suc n)) tot (Some p)"
  by (simp add: add.commute)

lemma loop_same_empty:
  "heuristicLoop sequence turn ((index, None) # rest) count tot None
     = heuristicLoop sequence turn rest count tot None"
  by simp

lemma loop_first_piece:
  "heuristicLoop sequence turn ((index, Some q) # rest) count tot None
     = heuristicLoop sequence turn rest 1 tot (Some q)"
  by simp

lemma loop_run_ends:
  assumes "square \<noteq> Some p" and "1 \<le> n"
  shows "heuristicLoop sequence turn ((index, square) # rest) (int n) tot (Some p)
     = heuristicLoop sequence turn rest (if square = None then 0 else 1)
         (tot + contribution turn p n (rightBlocked sequence index square + leftBlocked sequence index n))
         square"
proof -
  have b: "(if square \<noteq> None \<or> int index \<ge> int (length sequence) - 1 then 1 else 0)
          + (if int index - int n - 1 < 0 then 1
             else if sequence ! nat (int index - int n - 1) \<noteq> None then 1 else (0::int))
          = int (rightBlocked sequence index square + leftBlocked sequence index n)"
    by (simp add: rightBlocked_def leftBlocked_def)
  have n: "0 < int n" using assms(2) by simp
  show ?thesis
    using assms(1) n
    by (simp only: heuristicLoop.simps Let_def b score_step option.case if_False if_True
          refl not_False_eq_True)
qed


lemma takeWhile_run:
  assumes "suf = [] \<or> hd suf \<noteq> x"
  shows "takeWhile (\<lambda>s. s = x) (replicate k x @ suf) = replicate k x"
proof (induction k)
  case 0
  show ?case using assms by (cases suf) simp_all
next
  case (Suc k)
  then show ?case by simp
qed

lemma dropWhile_run:
  assumes "suf = [] \<or> hd suf \<noteq> x"
  shows "dropWhile (\<lambda>s. s = x) (replicate k x @ suf) = suf"
proof (induction k)
  case 0
  show ?case using assms by (cases suf) simp_all
next
  case (Suc k)
  then show ?case by simp
qed

lemma runsScore_run:
  assumes "suf = [] \<or> hd suf \<noteq> Some p"
  shows "runsScore turn lb (replicate (Suc k) (Some p) @ suf)
         = contribution turn p (Suc k)
             ((if lb then 1 else 0) + (case suf of [] \<Rightarrow> 1 | None # _ \<Rightarrow> 0 | Some _ # _ \<Rightarrow> 1))
           + runsScore turn True suf"
proof -
  have t: "takeWhile (\<lambda>s. s = Some p) (replicate k (Some p) @ suf) = replicate k (Some p)"
    by (rule takeWhile_run[OF assms])
  have d: "dropWhile (\<lambda>s. s = Some p) (replicate k (Some p) @ suf) = suf"
    by (rule dropWhile_run[OF assms])
  have "(case suf of [] \<Rightarrow> True | None # _ \<Rightarrow> False | Some _ # _ \<Rightarrow> True)
        = ((case suf of [] \<Rightarrow> 1 | None # _ \<Rightarrow> 0 | Some _ # _ \<Rightarrow> 1) = (1::nat))"
    by (simp split: list.splits option.splits)
  then show ?thesis
    by (simp add: runsScore.simps t d Let_def split: list.splits option.splits)
qed

lemma runsScore_grow:
  "runsScore turn lb (replicate n (Some p) @ Some p # xs)
   = runsScore turn lb (replicate (Suc n) (Some p) @ xs)"
  by (simp only: replicate_app_Cons_same replicate_Suc append_Cons)


lemma leftBlocked_run:
  "leftBlocked (pre @ replicate n (Some p) @ rest) (length pre + n) n
   = (if pre = [] \<or> last pre \<noteq> None then 1 else 0)"
proof (cases "pre = []")
  case True
  then show ?thesis by (simp add: leftBlocked_def)
next
  case False
  then have pos: "0 < length pre" by simp
  have i: "int (length pre + n) - int n - 1 = int (length pre - 1)" using pos by linarith
  have "(pre @ replicate n (Some p) @ rest) ! (length pre - 1) = pre ! (length pre - 1)"
    using pos by (simp add: nth_append)
  also have "\<dots> = last pre" using False by (simp add: last_conv_nth)
  finally show ?thesis using False unfolding leftBlocked_def i by simp
qed

lemma rightBlocked_inner:
  "rightBlocked (pre @ replicate n (Some p) @ (x # xs) @ [None]) (length pre + n) x
   = (if x \<noteq> None then 1 else 0)"
  by (simp add: rightBlocked_def)

lemma rightBlocked_last:
  "rightBlocked (pre @ replicate n (Some p) @ [] @ [None]) (length pre + n) None = 1"
  by (simp add: rightBlocked_def)

lemma loop_scores:
  "(\<forall>pre n p tot.
      heuristicLoop (pre @ replicate (Suc n) (Some p) @ suf @ [None]) turn
        (List.enumerate (length pre + Suc n) (suf @ [None])) (int (Suc n)) tot (Some p)
      = tot + runsScore turn (pre = [] \<or> last pre \<noteq> None) (replicate (Suc n) (Some p) @ suf))
   \<and> (\<forall>pre tot.
      heuristicLoop (pre @ suf @ [None]) turn
        (List.enumerate (length pre) (suf @ [None])) 0 tot None
      = tot + runsScore turn (pre = [] \<or> last pre \<noteq> None) suf)"
proof (induction suf)
  case Nil
  have pos: "1 \<le> Suc k" for k by simp
  have run: "heuristicLoop (pre @ replicate (Suc n) (Some p) @ [] @ [None]) turn
        (List.enumerate (length pre + Suc n) ([] @ [None])) (int (Suc n)) tot (Some p)
      = tot + runsScore turn (pre = [] \<or> last pre \<noteq> None) (replicate (Suc n) (Some p) @ [])"
    for pre n p tot
  proof -
    have e: "List.enumerate (length pre + Suc n) ([] @ [None]) = [(length pre + Suc n, None :: square)]"
      by simp
    have ne: "(None :: square) \<noteq> Some p" by simp
    have "heuristicLoop (pre @ replicate (Suc n) (Some p) @ [] @ [None]) turn
        (List.enumerate (length pre + Suc n) ([] @ [None])) (int (Suc n)) tot (Some p)
      = tot + contribution turn p (Suc n) (1 + (if pre = [] \<or> last pre \<noteq> None then 1 else 0))"
      unfolding e loop_run_ends[OF ne pos[of n]] rightBlocked_last leftBlocked_run by simp
    also have "\<dots> = tot + runsScore turn (pre = [] \<or> last pre \<noteq> None) (replicate (Suc n) (Some p) @ [])"
      using runsScore_run[of "[]" p turn "pre = [] \<or> last pre \<noteq> None" n]
      by (simp add: add.commute)
    finally show ?thesis .
  qed
  have gap: "heuristicLoop (pre @ [] @ [None]) turn
        (List.enumerate (length pre) ([] @ [None])) 0 tot None
      = tot + runsScore turn (pre = [] \<or> last pre \<noteq> None) []" for pre tot
    by (simp add: runsScore.simps)
  from run gap show ?case by blast
next
  case (Cons x xs)
  note IHrun = Cons.IH[THEN conjunct1, rule_format]
  note IHgap = Cons.IH[THEN conjunct2, rule_format]
  have pos: "1 \<le> Suc k" for k by simp
  have run: "heuristicLoop (pre @ replicate (Suc n) (Some p) @ (x # xs) @ [None]) turn
        (List.enumerate (length pre + Suc n) ((x # xs) @ [None])) (int (Suc n)) tot (Some p)
      = tot + runsScore turn (pre = [] \<or> last pre \<noteq> None) (replicate (Suc n) (Some p) @ x # xs)"
    (is "?lhs = ?rhs") for pre n p tot
  proof -
    have e: "List.enumerate (length pre + Suc n) ((x # xs) @ [None])
             = (length pre + Suc n, x) # List.enumerate (length pre + Suc (Suc n)) (xs @ [None])"
      by simp
    consider (same) "x = Some p" | (empty) "x = None" | (other) q where "x = Some q" "q \<noteq> p"
      by (cases x) auto
    then show ?thesis
    proof cases
      case same
      have seq: "pre @ replicate (Suc n) (Some p) @ (x # xs) @ [None]
                 = pre @ replicate (Suc (Suc n)) (Some p) @ xs @ [None]"
        unfolding same by (simp add: replicate_app_Cons_same)
      have "?lhs = heuristicLoop (pre @ replicate (Suc (Suc n)) (Some p) @ xs @ [None]) turn
                     (List.enumerate (length pre + Suc (Suc n)) (xs @ [None])) (int (Suc (Suc n))) tot (Some p)"
        unfolding e seq unfolding same loop_same_piece ..
      also have "\<dots> = tot + runsScore turn (pre = [] \<or> last pre \<noteq> None)
                           (replicate (Suc (Suc n)) (Some p) @ xs)"
        by (rule IHrun)
      also have "\<dots> = ?rhs"
        unfolding same using runsScore_grow[of turn _ "Suc n" p xs] by simp
      finally show ?thesis .
    next
      case empty
      have ne: "x \<noteq> Some p" using empty by simp
      let ?c = "contribution turn p (Suc n) (if pre = [] \<or> last pre \<noteq> None then 1 else 0)"
      have seq: "pre @ replicate (Suc n) (Some p) @ (x # xs) @ [None]
                 = (pre @ replicate (Suc n) (Some p) @ [None]) @ xs @ [None]"
        unfolding empty by simp
      have len: "length pre + Suc (Suc n) = length (pre @ replicate (Suc n) (Some p) @ [None])"
        by simp
      have "?lhs = heuristicLoop (pre @ replicate (Suc n) (Some p) @ (x # xs) @ [None]) turn
                     (List.enumerate (length pre + Suc (Suc n)) (xs @ [None])) 0 (tot + ?c) None"
        unfolding e loop_run_ends[OF ne pos[of n]] rightBlocked_inner leftBlocked_run
        using empty by simp
      also have "\<dots> = (tot + ?c) + runsScore turn False xs"
        unfolding seq len using IHgap[of "pre @ replicate (Suc n) (Some p) @ [None]" "tot + ?c"]
        by simp
      also have "\<dots> = ?rhs"
        unfolding empty using runsScore_run[of "None # xs" p turn "pre = [] \<or> last pre \<noteq> None" n]
        by simp
      finally show ?thesis .
    next
      case other
      have ne: "x \<noteq> Some p" using other by simp
      let ?c = "contribution turn p (Suc n) (1 + (if pre = [] \<or> last pre \<noteq> None then 1 else 0))"
      have seq: "pre @ replicate (Suc n) (Some p) @ (x # xs) @ [None]
                 = (pre @ replicate (Suc n) (Some p)) @ replicate (Suc 0) (Some q) @ xs @ [None]"
        unfolding other by simp
      have len: "length pre + Suc (Suc n) = length (pre @ replicate (Suc n) (Some p)) + Suc 0"
        by simp
      have "?lhs = heuristicLoop (pre @ replicate (Suc n) (Some p) @ (x # xs) @ [None]) turn
                     (List.enumerate (length pre + Suc (Suc n)) (xs @ [None])) (int (Suc 0)) (tot + ?c) (Some q)"
        unfolding e loop_run_ends[OF ne pos[of n]] rightBlocked_inner leftBlocked_run
        using other by simp
      also have "\<dots> = (tot + ?c) + runsScore turn True (replicate (Suc 0) (Some q) @ xs)"
        unfolding seq len using IHrun[of "pre @ replicate (Suc n) (Some p)" 0 q "tot + ?c"]
        by simp
      also have "\<dots> = ?rhs"
        unfolding other
        using runsScore_run[of "Some q # xs" p turn "pre = [] \<or> last pre \<noteq> None" n] other(2)
        by (simp add: add.commute)
      finally show ?thesis .
    qed
  qed
  have gap: "heuristicLoop (pre @ (x # xs) @ [None]) turn
        (List.enumerate (length pre) ((x # xs) @ [None])) 0 tot None
      = tot + runsScore turn (pre = [] \<or> last pre \<noteq> None) (x # xs)"
    (is "?lhs = ?rhs") for pre tot
  proof (cases x)
    case None
    have seq: "pre @ (x # xs) @ [None] = (pre @ [None]) @ xs @ [None]" unfolding None by simp
    have "?lhs = heuristicLoop ((pre @ [None]) @ xs @ [None]) turn
                   (List.enumerate (length (pre @ [None])) (xs @ [None])) 0 tot None"
      unfolding seq unfolding None by simp
    also have "\<dots> = tot + runsScore turn False xs"
      using IHgap[of "pre @ [None]" tot] by simp
    finally show ?thesis unfolding None by (simp add: runsScore.simps(2))
  next
    case (Some q)
    have seq: "pre @ (x # xs) @ [None] = pre @ replicate (Suc 0) (Some q) @ xs @ [None]"
      unfolding Some by simp
    have "?lhs = heuristicLoop (pre @ replicate (Suc 0) (Some q) @ xs @ [None]) turn
                   (List.enumerate (length pre + Suc 0) (xs @ [None])) (int (Suc 0)) tot (Some q)"
      unfolding seq unfolding Some by simp
    also have "\<dots> = tot + runsScore turn (pre = [] \<or> last pre \<noteq> None) (replicate (Suc 0) (Some q) @ xs)"
      by (rule IHrun)
    finally show ?thesis unfolding Some by simp
  qed
  from run gap show ?case by blast
qed


text \<open>
  What the loop computes: on a line followed by the dummy \<open>None\<close> entry,
  \<open>getHeuristicScore\<close> is the sum over the maximal runs of identical pieces of the
  table's weight for (run length, number of blocked ends, whether the run's owner is
  the mover), added for \<open>X\<close> and subtracted otherwise. The length is looked up as it
  is, and a key that the table does not hold adds nothing.
\<close>

lemma getHeuristicScore_runsScore:
  "getHeuristicScore (line @ [None]) turn = runsScore turn True line"
  using loop_scores[of line turn, THEN conjunct2, rule_format, of "[]" 0]
  by (simp add: getHeuristicScore_def)

lemma contribution_long: "5 < n \<Longrightarrow> contribution turn p n b = 0"
  by (simp add: contribution_def combinationScore_def)

lemma contribution_closed_short: "n < 5 \<Longrightarrow> contribution turn p n 2 = 0"
  by (simp add: contribution_def combinationScore_def)

lemma runsScore_example:
  "runsScore ''X'' True
     [Some ''O'', Some ''X'', Some ''X'', None, Some ''O'', Some ''O'', Some ''O''] = - 5.5"
  by (simp add: runsScore.simps contribution_def combinationScore_def)

text \<open>
  C3, the failing input. The run length is not capped at the winning length: on a
  line, an open run of six \<open>X\<close> scores nothing while an open run of five scores
  200000000. On the board of size 15, with \<open>X\<close> on (7, 2), (7, 3), (7, 4), (7, 6) and
  (7, 7), the move of \<open>X\<close> to (7, 5) makes six in a row: \<open>hasWinner\<close> reports the win, and
  the evaluation of the position is 7, below the 50000012 of the position after the
  move to (7, 1), which does not win.
\<close>

theorem getHeuristicScore_misses_six:
  "getHeuristicScore ([None] @ replicate 6 (Some ''X'') @ [None, None]) ''X'' = 0
   \<and> getHeuristicScore ([None] @ replicate 5 (Some ''X'') @ [None, None]) ''X'' = 200000000
   \<and> (\<exists>g. placePieces exampleBoard
             [(7, 2, ''X''), (0, 0, ''O''), (7, 3, ''X''), (0, 2, ''O''), (7, 4, ''X''),
              (0, 4, ''O''), (7, 6, ''X''), (0, 6, ''O''), (7, 7, ''X''), (0, 8, ''O''),
              (7, 5, ''X'')] = Some g
          \<and> hasWinner_grid g = Some True \<and> overallHeuristicScore g ''O'' = Some 7)
   \<and> (\<exists>g. placePieces exampleBoard
             [(7, 2, ''X''), (0, 0, ''O''), (7, 3, ''X''), (0, 2, ''O''), (7, 4, ''X''),
              (0, 4, ''O''), (7, 6, ''X''), (0, 6, ''O''), (7, 7, ''X''), (0, 8, ''O''),
              (7, 1, ''X'')] = Some g
          \<and> hasWinner_grid g = Some False \<and> overallHeuristicScore g ''O'' = Some 50000012)"
proof -
  have line: "getHeuristicScore ([None] @ replicate 6 (Some ''X'') @ [None, None]) ''X'' = 0
     \<and> getHeuristicScore ([None] @ replicate 5 (Some ''X'') @ [None, None]) ''X'' = 200000000"
    by (simp add: getHeuristicScore_def enumerate_eq_zip upt_conv_Cons combinationScore_def
          eval_nat_numeral)
  have "case placePieces exampleBoard
             [(7, 2, ''X''), (0, 0, ''O''), (7, 3, ''X''), (0, 2, ''O''), (7, 4, ''X''),
              (0, 4, ''O''), (7, 6, ''X''), (0, 6, ''O''), (7, 7, ''X''), (0, 8, ''O''),
              (7, 5, ''X'')] of None \<Rightarrow> False
        | Some g \<Rightarrow> hasWinner_grid g = Some True \<and> overallHeuristicScore g ''O'' = Some 7"
    by code_simp
  then have six: "\<exists>g. placePieces exampleBoard
             [(7, 2, ''X''), (0, 0, ''O''), (7, 3, ''X''), (0, 2, ''O''), (7, 4, ''X''),
              (0, 4, ''O''), (7, 6, ''X''), (0, 6, ''O''), (7, 7, ''X''), (0, 8, ''O''),
              (7, 5, ''X'')] = Some g
          \<and> hasWinner_grid g = Some True \<and> overallHeuristicScore g ''O'' = Some 7"
    by (auto split: option.splits)
  have "case placePieces exampleBoard
             [(7, 2, ''X''), (0, 0, ''O''), (7, 3, ''X''), (0, 2, ''O''), (7, 4, ''X''),
              (0, 4, ''O''), (7, 6, ''X''), (0, 6, ''O''), (7, 7, ''X''), (0, 8, ''O''),
              (7, 1, ''X'')] of None \<Rightarrow> False
        | Some g \<Rightarrow> hasWinner_grid g = Some False \<and> overallHeuristicScore g ''O'' = Some 50000012"
    by code_simp
  then have four: "\<exists>g. placePieces exampleBoard
             [(7, 2, ''X''), (0, 0, ''O''), (7, 3, ''X''), (0, 2, ''O''), (7, 4, ''X''),
              (0, 4, ''O''), (7, 6, ''X''), (0, 6, ''O''), (7, 7, ''X''), (0, 8, ''O''),
              (7, 1, ''X'')] = Some g
          \<and> hasWinner_grid g = Some False \<and> overallHeuristicScore g ''O'' = Some 50000012"
    by (auto split: option.splits)
  from line six four show ?thesis by blast
qed

end
